(* ===== verification/Prelude.thy ===== *)
theory Prelude
  imports Main "HOL-Library.Word"
begin

text \<open>
  Shared vocabulary of the development: the JavaScript number values the widget
  computes with (integers and \<open>NaN\<close>, the result of \<open>parseInt\<close> on a string
  without digits), the conversions the browser applies to timer delays, the
  named theorem collections the component theories fill, and generic lemmas on
  lists, options and maps.
\<close>

named_theorems js_simps "evaluation rules of the JavaScript value model"
named_theorems state_simps "frame and update rules of the component states"

subsection \<open>JavaScript numbers\<close>

text \<open>
  The code only ever holds integer numbers or \<open>NaN\<close> in the fields it compares:
  \<open>parseInt\<close> returns one of the two, and \<open>*\<close>, \<open>-\<close> keep integers integral
  and propagate \<open>NaN\<close>. Doubles lose precision beyond \<open>2^53\<close>; the model keeps
  the exact integer (see the root theory's header).
\<close>

datatype jsnum = Num int | NaN

type_synonym ms = int
type_synonym timestamp = int

fun js_sub :: "jsnum \<Rightarrow> jsnum \<Rightarrow> jsnum" where
  "js_sub (Num a) (Num b) = Num (a - b)"
| "js_sub _ _ = NaN"

fun js_mul :: "jsnum \<Rightarrow> jsnum \<Rightarrow> jsnum" where
  "js_mul (Num a) (Num b) = Num (a * b)"
| "js_mul _ _ = NaN"

text \<open>\<open>a > b\<close> and \<open>a === b\<close>: every comparison with \<open>NaN\<close> is false.\<close>

fun js_gt :: "jsnum \<Rightarrow> jsnum \<Rightarrow> bool" where
  "js_gt (Num a) (Num b) = (b < a)"
| "js_gt _ _ = False"

fun js_eq :: "jsnum \<Rightarrow> jsnum \<Rightarrow> bool" where
  "js_eq (Num a) (Num b) = (a = b)"
| "js_eq _ _ = False"

text \<open>
  WebIDL's \<open>ToInt32\<close>, which \<open>setTimeout\<close> applies to its delay: \<open>NaN\<close> is 0,
  an integer is taken modulo \<open>2^32\<close> as a two's-complement 32-bit value.
\<close>

fun js_toint32 :: "jsnum \<Rightarrow> int" where
  "js_toint32 NaN = 0"
| "js_toint32 (Num n) = sint (word_of_int n :: 32 word)"

text \<open>
  HTML's timer initialisation steps: the delay is \<open>ToInt32(ms)\<close>, and a negative
  delay is 0.
\<close>

definition timer_delay :: "jsnum \<Rightarrow> int" where
  "timer_delay ms = max 0 (js_toint32 ms)"

subsection \<open>Generic lemmas\<close>

lemma js_sub_NaN [simp, js_simps]: "js_sub NaN x = NaN" "js_sub x NaN = NaN"
  by (cases x; simp)+

lemma js_gt_NaN [simp, js_simps]: "\<not> js_gt NaN x" "\<not> js_gt x NaN"
  by (cases x; simp)+

lemma js_eq_NaN [simp, js_simps]: "\<not> js_eq NaN x" "\<not> js_eq x NaN"
  by (cases x; simp)+

lemma js_gt_Num_iff [js_simps]: "js_gt x (Num b) \<longleftrightarrow> (\<exists>a. x = Num a \<and> b < a)"
  by (cases x) auto

lemma js_toint32_small [js_simps]:
  assumes "- (2 ^ 31) \<le> n" and "n < 2 ^ 31"
  shows "js_toint32 (Num n) = n"
  using assms by (simp add: sint_sbintrunc' signed_take_bit_int_eq_self)

text \<open>From \<open>2^31\<close> to \<open>2^32\<close> ToInt32 wraps to the negative range.\<close>

lemma js_toint32_wrap:
  assumes "2 ^ 31 \<le> n" and "n < 2 ^ 32"
  shows "js_toint32 (Num n) = n - 2 ^ 32"
proof -
  have "(word_of_int n :: 32 word) = word_of_int (n - 2 ^ 32)" by simp
  then have "js_toint32 (Num n) = js_toint32 (Num (n - 2 ^ 32))" by (simp only: js_toint32.simps)
  also have "\<dots> = n - 2 ^ 32" using assms by (intro js_toint32_small) simp_all
  finally show ?thesis .
qed

lemma js_toint32_range: "- (2 ^ 31) \<le> js_toint32 x \<and> js_toint32 x < 2 ^ 31"
proof (cases x)
  case (Num n)
  have "- (2 ^ 31) \<le> sint (word_of_int n :: 32 word)"
    using sint_ge [of "word_of_int n :: 32 word"] by simp
  moreover have "sint (word_of_int n :: 32 word) < 2 ^ 31"
    using sint_lt [of "word_of_int n :: 32 word"] by simp
  ultimately show ?thesis using Num by simp
qed simp

lemma map_upd_other [state_simps]: "k \<noteq> k' \<Longrightarrow> (m(k \<mapsto> v)) k' = m k'"
  by simp

lemma find_append: "find P (xs @ ys) = (case find P xs of None \<Rightarrow> find P ys | Some x \<Rightarrow> Some x)"
  by (induction xs) auto

lemma sum_list_filter_le:
  "sum_list (map f (filter P xs)) \<le> (sum_list (map f xs) :: nat)"
  by (induction xs) auto

lemma sum_list_remove_key:
  assumes "distinct (map fst xs)" and "(i, d, c) \<in> set xs"
  shows "sum_list (map (\<lambda>(_, _, c). w c) (filter (\<lambda>x. fst x \<noteq> i) xs)) + w c
       = (sum_list (map (\<lambda>(_, _, c). w c) xs) :: nat)"
  using assms
proof (induction xs)
  case Nil
  then show ?case by simp
next
  case (Cons x xs)
  show ?case
  proof (cases "x = (i, d, c)")
    case True
    with Cons.prems have "i \<notin> fst ` set xs" by auto
    then have "filter (\<lambda>x. fst x \<noteq> i) xs = xs"
      by (force simp: filter_id_conv)
    with True show ?thesis by simp
  next
    case False
    with Cons.prems have "(i, d, c) \<in> set xs" and "fst x \<noteq> i"
      by (auto simp: image_iff)
    with Cons show ?thesis by (auto split: prod.splits)
  qed
qed

lemma find_Some_mem: "find P xs = Some x \<Longrightarrow> x \<in> set xs \<and> P x"
  by (induction xs) (auto split: if_splits)

lemma map_enumerate_snd: "map (\<lambda>(i, x). f x) (enumerate n xs) = map f xs"
  by (induction xs arbitrary: n) simp_all

end
