(* ===== verification/Api.thy ===== *)
theory Api
  imports Prelude
begin

text \<open>
  Model of \<open>src/src/utils/api.js\<close>: the request \<open>fetchIssues\<close> sends, the
  normalisation \<open>formatIssues\<close> of the search payload, and the rate-limit reader
  \<open>getRateLimits\<close>, together with the ECMAScript \<open>parseInt(_, 10)\<close> it relies on.
  Failures of \<open>formatIssues\<close> (a \<open>TypeError\<close> when \<open>.map\<close> meets a missing
  array) are values of a sum type.
\<close>

subsection \<open>ECMAScript parseInt with radix 10\<close>

text \<open>
  \<open>Number.parseInt(string, 10)\<close> (ECMA-262, 21.1.2.13): strip leading white
  space, read an optional sign, take the longest prefix of decimal digits; no digit
  gives \<open>NaN\<close>. Characters are bytes here, so the white space is the ASCII part of
  \<open>StrWhiteSpaceChar\<close>.
\<close>

definition js_whitespace :: "char \<Rightarrow> bool" where
  "js_whitespace c \<longleftrightarrow>
     c \<in> set [CHR '' '', CHR 0x09, CHR 0x0A, CHR 0x0B, CHR 0x0C, CHR 0x0D]"

definition is_digit :: "char \<Rightarrow> bool" where
  "is_digit c \<longleftrightarrow> (48::nat) \<le> of_char c \<and> of_char c \<le> (57::nat)"

definition digit_val :: "char \<Rightarrow> int" where
  "digit_val c = int (of_char c) - 48"

fun digits_value :: "int \<Rightarrow> string \<Rightarrow> int" where
  "digits_value acc [] = acc"
| "digits_value acc (c # cs) = digits_value (10 * acc + digit_val c) cs"

definition js_parseInt :: "string \<Rightarrow> jsnum" where
  "js_parseInt str =
     (let s = dropWhile js_whitespace str;
          sign = (if s \<noteq> [] \<and> hd s = CHR ''-'' then - 1 else (1::int));
          s' = (if s \<noteq> [] \<and> (hd s = CHR ''+'' \<or> hd s = CHR ''-'') then tl s else s);
          z = takeWhile is_digit s'
      in if z = [] then NaN else Num (sign * digits_value 0 z))"

text \<open>
  Decimal printing of integers (JavaScript's \<open>Number::toString\<close> on integral
  values), the form in which the server sends the rate-limit headers.
\<close>

fun dec_string :: "nat \<Rightarrow> string" where
  "dec_string n =
     (if n < 10 then [char_of (48 + n)]
      else dec_string (n div 10) @ [char_of (48 + n mod 10)])"

definition int_string :: "int \<Rightarrow> string" where
  "int_string i =
     (if i < 0 then CHR ''-'' # dec_string (nat (- i)) else dec_string (nat i))"

subsection \<open>Responses and rate limits\<close>

text \<open>
  A response as the code reads it: its status and its headers. \<open>headers.get\<close>
  returns \<open>null\<close> for a missing header (\<open>None\<close>); names are matched in lower
  case, as the code writes them. \<open>parseInt(null, 10)\<close> parses the string
  \<open>"null"\<close>.
\<close>

type_synonym headers = "string \<rightharpoonup> string"

record response =
  status :: int
  headers :: headers

definition header_num :: "headers \<Rightarrow> string \<Rightarrow> jsnum" where
  "header_num h k = js_parseInt (case h k of None \<Rightarrow> ''null'' | Some v \<Rightarrow> v)"

record rate_limits =
  remaining :: jsnum
  limit :: jsnum
  used :: jsnum
  resetTimestamp :: jsnum
  timeUntilReset :: jsnum

text \<open>\<open>getRateLimits(response)\<close>, with \<open>Date.now()\<close> as the argument \<open>now\<close>.\<close>

definition getRateLimits :: "response \<Rightarrow> timestamp \<Rightarrow> rate_limits" where
  "getRateLimits r now =
     (let h = headers r;
          reset = js_mul (header_num h ''x-ratelimit-reset'') (Num 1000)
      in \<lparr>remaining = header_num h ''x-ratelimit-remaining'',
          limit = header_num h ''x-ratelimit-limit'',
          used = header_num h ''x-ratelimit-used'',
          resetTimestamp = reset,
          timeUntilReset = js_sub reset (Num now)\<rparr>)"

subsection \<open>Search payload and its formatting\<close>

text \<open>
  The fields of the JSON payload that \<open>formatIssues\<close> reads. A missing
  \<open>items\<close> or \<open>labels\<close> array is \<open>None\<close> (calling \<open>.map\<close> on it throws a
  \<open>TypeError\<close>); a missing \<open>color\<close> is \<open>None\<close> (the template literal prints
  it as \<open>undefined\<close>).
\<close>

record raw_label =
  raw_label_id :: int
  raw_label_name :: string
  raw_label_color :: "string option"

record raw_issue =
  raw_id :: int
  raw_title :: string
  raw_state :: string
  raw_labels :: "raw_label list option"

record search_payload =
  raw_items :: "raw_issue list option"

record label =
  label_id :: int
  label_name :: string
  color :: string

record item =
  item_id :: int
  title :: string
  isOpen :: bool
  labels :: "label list"

datatype api_error = TypeError

definition format_label :: "raw_label \<Rightarrow> label" where
  "format_label l =
     \<lparr>label_id = raw_label_id l, label_name = raw_label_name l,
      color = CHR ''#'' # (case raw_label_color l of None \<Rightarrow> ''undefined'' | Some c \<Rightarrow> c)\<rparr>"

definition format_issue :: "raw_issue \<Rightarrow> api_error + item" where
  "format_issue r =
     (case raw_labels r of
        None \<Rightarrow> Inl TypeError
      | Some ls \<Rightarrow> Inr \<lparr>item_id = raw_id r, title = raw_title r,
                       isOpen = (raw_state r = ''open''), labels = map format_label ls\<rparr>)"

text \<open>\<open>Array.prototype.map\<close>: the callback runs in order, the first throw escapes.\<close>

fun map_issues :: "raw_issue list \<Rightarrow> api_error + item list" where
  "map_issues [] = Inr []"
| "map_issues (r # rs) =
     (case format_issue r of
        Inl e \<Rightarrow> Inl e
      | Inr it \<Rightarrow> (case map_issues rs of Inl e \<Rightarrow> Inl e | Inr its \<Rightarrow> Inr (it # its)))"

definition formatIssues :: "search_payload \<Rightarrow> api_error + item list" where
  "formatIssues p = (case raw_items p of None \<Rightarrow> Inl TypeError | Some rs \<Rightarrow> map_issues rs)"

subsection \<open>The search request\<close>

text \<open>
  \<open>fetchIssues(text)\<close> requests this URL with this \<open>Accept\<close> header; the text
  is spliced into the query string as it is, without \<open>encodeURIComponent\<close>.
\<close>

definition search_url_prefix :: string where
  "search_url_prefix = ''https://api.github.com/search/issues?per_page=10&q=repo:facebook/react+''"

definition search_url :: "string \<Rightarrow> string" where
  "search_url text = search_url_prefix @ text"

definition accept_header :: string where
  "accept_header = ''application/vnd.github.v3+json''"

subsection \<open>Reference behaviour of formatIssues\<close>

text \<open>
  What \<open>formatIssues\<close> computes, stated over the whole payload at once: a
  \<open>TypeError\<close> exactly when the \<open>items\<close> array or some issue's \<open>labels\<close>
  array is missing, else the issues in order with their labels formatted.
\<close>

definition format_issue_total :: "raw_issue \<Rightarrow> label list \<Rightarrow> item" where
  "format_issue_total r ls = \<lparr>item_id = raw_id r, title = raw_title r,
       isOpen = (raw_state r = ''open''), labels = ls\<rparr>"

definition formatIssues_spec :: "search_payload \<Rightarrow> api_error + item list" where
  "formatIssues_spec p =
     (case raw_items p of
        None \<Rightarrow> Inl TypeError
      | Some rs \<Rightarrow>
          if list_all (\<lambda>r. raw_labels r \<noteq> None) rs
          then Inr (map (\<lambda>r. format_issue_total r (map format_label (the (raw_labels r)))) rs)
          else Inl TypeError)"

subsection \<open>parseInt: digits and the decimal round trip\<close>

lemma digits_value_append: "digits_value acc (xs @ ys) = digits_value (digits_value acc xs) ys"
  by (induction xs arbitrary: acc) simp_all

lemma digit_char [simp]:
  "d < 10 \<Longrightarrow> is_digit (char_of (48 + d)) \<and> digit_val (char_of (48 + d)) = int d"
  by (simp add: is_digit_def digit_val_def of_char_of)

declare dec_string.simps [simp del]

lemma dec_string_digits: "c \<in> set (dec_string n) \<Longrightarrow> is_digit c"
proof (induction n rule: dec_string.induct)
  case (1 n)
  then show ?case by (subst (asm) dec_string.simps) (auto split: if_splits)
qed

lemma dec_string_not_Nil [simp]: "dec_string n \<noteq> []"
  by (subst dec_string.simps) simp

lemma digits_value_dec_string: "digits_value 0 (dec_string n) = int n"
proof (induction n rule: dec_string.induct)
  case (1 n)
  show ?case
  proof (cases "n < 10")
    case True
    then show ?thesis by (subst dec_string.simps) simp
  next
    case False
    then have "digits_value 0 (dec_string n) = 10 * int (n div 10) + int (n mod 10)"
      using "1" by (subst dec_string.simps) (simp add: digits_value_append)
    also have "\<dots> = int (10 * (n div 10) + n mod 10)"
      by (simp only: of_nat_add of_nat_mult of_nat_numeral)
    also have "10 * (n div 10) + n mod 10 = n" by simp
    finally show ?thesis .
  qed
qed

lemma digit_not_sign: "is_digit c \<Longrightarrow> c \<noteq> CHR ''-'' \<and> c \<noteq> CHR ''+'' \<and> \<not> js_whitespace c"
  by (auto simp: is_digit_def js_whitespace_def)

lemma hd_dec_string: "is_digit (hd (dec_string n))"
  using dec_string_digits [of "hd (dec_string n)" n] by simp

lemma takeWhile_dec_string:
  assumes "rest = [] \<or> \<not> is_digit (hd rest)"
  shows "takeWhile is_digit (dec_string n @ rest) = dec_string n"
proof -
  have "takeWhile is_digit rest = []" using assms by (cases rest) auto
  then show ?thesis by (simp add: dec_string_digits)
qed

lemma parseInt_int_string:
  assumes "rest = [] \<or> \<not> is_digit (hd rest)"
  shows "js_parseInt (int_string i @ rest) = Num i"
proof (cases "i < 0")
  case True
  have ws: "\<not> js_whitespace CHR ''-''" by (simp add: js_whitespace_def)
  from True ws show ?thesis
    by (simp add: js_parseInt_def int_string_def takeWhile_dec_string [OF assms]
        digits_value_dec_string)
next
  case False
  obtain c cs where dc: "dec_string (nat i) = c # cs" by (cases "dec_string (nat i)") auto
  have "is_digit c" using hd_dec_string [of "nat i"] dc by simp
  then have c: "c \<noteq> CHR ''-'' \<and> c \<noteq> CHR ''+'' \<and> \<not> js_whitespace c" by (rule digit_not_sign)
  have "js_parseInt (dec_string (nat i) @ rest) = Num (int (nat i))"
    using c takeWhile_dec_string [OF assms, of "nat i"] digits_value_dec_string [of "nat i"]
    by (simp add: js_parseInt_def dc)
  with False show ?thesis by (simp add: int_string_def)
qed

lemma header_num_int_string [js_simps]: "h k = Some (int_string n) \<Longrightarrow> header_num h k = Num n"
  using parseInt_int_string [of "[]" n] by (simp add: header_num_def)

lemma header_num_missing [js_simps]: "h k = None \<Longrightarrow> header_num h k = NaN"
  by (simp add: header_num_def js_parseInt_def js_whitespace_def is_digit_def)

lemma map_issues_spec:
  "map_issues rs =
     (if list_all (\<lambda>r. raw_labels r \<noteq> None) rs
      then Inr (map (\<lambda>r. format_issue_total r (map format_label (the (raw_labels r)))) rs)
      else Inl TypeError)"
  by (induction rs)
    (auto simp: format_issue_def format_issue_total_def split: option.splits sum.splits)

subsection \<open>Properties of the API utilities\<close>

text \<open>C36: getRateLimits turns integer headers into the remaining count, the reset time in milliseconds and the time until it.\<close>

theorem getRateLimits_int_headers:
  assumes "headers r ''x-ratelimit-reset'' = Some (int_string t)"
    and "headers r ''x-ratelimit-remaining'' = Some (int_string k)"
  shows "remaining (getRateLimits r now) = Num k
       \<and> resetTimestamp (getRateLimits r now) = Num (t * 1000)
       \<and> timeUntilReset (getRateLimits r now) = Num (t * 1000 - now)"
  using assms by (simp add: getRateLimits_def Let_def header_num_int_string)

theorem getRateLimits_int_headers_witness:
  "remaining (getRateLimits \<lparr>status = 200, headers = [''x-ratelimit-remaining'' \<mapsto> ''10'',
       ''x-ratelimit-reset'' \<mapsto> ''100'']\<rparr> 80000) = Num 10
   \<and> resetTimestamp (getRateLimits \<lparr>status = 200, headers = [''x-ratelimit-remaining'' \<mapsto> ''10'',
       ''x-ratelimit-reset'' \<mapsto> ''100'']\<rparr> 80000) = Num 100000
   \<and> timeUntilReset (getRateLimits \<lparr>status = 200, headers = [''x-ratelimit-remaining'' \<mapsto> ''10'',
       ''x-ratelimit-reset'' \<mapsto> ''100'']\<rparr> 80000) = Num 20000"
proof -
  have "int_string 100 = ''100''" "int_string 10 = ''10''" by code_simp+
  then show ?thesis
    using getRateLimits_int_headers [of "\<lparr>status = 200, headers = [''x-ratelimit-remaining'' \<mapsto> ''10'',
       ''x-ratelimit-reset'' \<mapsto> ''100'']\<rparr>" 100 10 80000]
    by simp
qed

text \<open>A missing reset header makes the reset time and the time until reset NaN.\<close>

theorem getRateLimits_missing_reset:
  assumes "headers r ''x-ratelimit-reset'' = None"
  shows "resetTimestamp (getRateLimits r now) = NaN \<and> timeUntilReset (getRateLimits r now) = NaN"
  using assms by (simp add: getRateLimits_def Let_def header_num_missing)

theorem getRateLimits_missing_reset_witness:
  "resetTimestamp (getRateLimits \<lparr>status = 200, headers = Map.empty\<rparr> 0) = NaN
   \<and> timeUntilReset (getRateLimits \<lparr>status = 200, headers = Map.empty\<rparr> 0) = NaN"
  using getRateLimits_missing_reset [of "\<lparr>status = 200, headers = Map.empty\<rparr>" 0] by simp

text \<open>C34: formatIssues equals its reference: a TypeError exactly when an array is missing, else every issue in order.\<close>

theorem formatIssues_eq_spec: "formatIssues p = formatIssues_spec p"
  by (simp add: formatIssues_def formatIssues_spec_def map_issues_spec split: option.splits)

text \<open>Every formatted label colour starts with a hash sign, an empty or missing colour included.\<close>

theorem format_label_color_hash: "hd (color (format_label l)) = CHR ''#''"
  by (simp add: format_label_def)

end
