(* ===== verification/Reducer.thy ===== *)
theory Reducer
  imports Api
begin

text \<open>
  The controller's state and its reducer, from
  \<open>src/src/components/Autocomplete/useAutocomplete.js\<close> (lines 8--86): the two
  error values, the initial state, the five action creators and
  \<open>autocompleteReducer\<close>. React's \<open>useReducer\<close> applies the reducer to the
  current state on each \<open>dispatch\<close>; the controller theory composes the
  dispatches. The reducer's \<open>switch\<close> compares the action's \<open>type\<close> string
  with the \<open>.name\<close> of each action creator; \<open>autocompleteReducer_named\<close> keeps
  that comparison, \<open>autocompleteReducer\<close> is the reducer as it behaves when every
  creator's \<open>.name\<close> is its source name.
\<close>

record error_info =
  message :: string
  err_type :: string

definition GENERIC_ERROR :: error_info where
  "GENERIC_ERROR = \<lparr>message = ''There was an error, please try again.'', err_type = ''error''\<rparr>"

definition RATE_LIMIT_ERROR :: error_info where
  "RATE_LIMIT_ERROR = \<lparr>message = ''Please wait.'', err_type = ''warning''\<rparr>"

record search_state =
  items :: "item list"
  search_text :: string  \<comment> \<open>the field \<open>text\<close>\<close>
  error :: "error_info option"
  isPristine :: bool
  hasReachedMaxLimit :: bool
  rateLimitResetTime :: jsnum

definition initialState :: search_state where
  "initialState = \<lparr>items = [], search_text = [], error = None, isPristine = True,
     hasReachedMaxLimit = False, rateLimitResetTime = Num 0\<rparr>"

text \<open>
  The payload of \<open>selectItem\<close>: an item of the list (click, Enter) or the
  synthetic \<open>{title: text}\<close> of the dismiss path; the reducer reads its title.
\<close>

datatype selected = Picked item | Typed string

fun sel_title :: "selected \<Rightarrow> string" where
  "sel_title (Picked it) = title it"
| "sel_title (Typed t) = t"

text \<open>The action creators, one constructor each.\<close>

datatype action =
    setError "error_info option"
  | updateRateLimits jsnum bool
  | changeText string
  | setItems "item list"
  | selectItem selected

text \<open>The string literal each creator puts in \<open>type\<close>.\<close>

fun action_type :: "action \<Rightarrow> string" where
  "action_type (setError _) = ''setError''"
| "action_type (updateRateLimits _ _) = ''updateRateLimits''"
| "action_type (changeText _) = ''changeText''"
| "action_type (setItems _) = ''setItems''"
| "action_type (selectItem _) = ''selectItem''"

fun autocompleteReducer :: "search_state \<Rightarrow> action \<Rightarrow> search_state" where
  "autocompleteReducer s (updateRateLimits t b) =
     s\<lparr>rateLimitResetTime := t, hasReachedMaxLimit := b\<rparr>"
| "autocompleteReducer s (setItems its) = s\<lparr>error := None, items := its\<rparr>"
| "autocompleteReducer s (changeText t) = s\<lparr>search_text := t, isPristine := False\<rparr>"
| "autocompleteReducer s (selectItem it) =
     s\<lparr>search_text := sel_title it, items := [], isPristine := True\<rparr>"
| "autocompleteReducer s (setError e) = s\<lparr>error := e\<rparr>"

text \<open>
  The \<open>case\<close> labels of the \<open>switch\<close>, in order: the source names of the
  creators whose \<open>.name\<close> they read. \<open>fname\<close> gives the run-time \<open>.name\<close>
  of the function bound to a source name: the identity in a development build; a
  minifier that renames the bindings changes it. The first label whose name equals
  the action's \<open>type\<close> is taken; none is the \<open>default\<close> branch. A label of
  another creator matching (a name clash the source never has) selects a branch whose
  payload fields are absent; the model leaves that case unspecified.
\<close>

definition switch_order :: "string list" where
  "switch_order = [''updateRateLimits'', ''setItems'', ''changeText'', ''selectItem'', ''setError'']"

definition autocompleteReducer_named ::
  "(string \<Rightarrow> string) \<Rightarrow> search_state \<Rightarrow> action \<Rightarrow> search_state" where
  "autocompleteReducer_named fname s a =
     (case find (\<lambda>n. fname n = action_type a) switch_order of
        None \<Rightarrow> s
      | Some n \<Rightarrow> if n = action_type a then autocompleteReducer s a else undefined)"

subsection \<open>The switch on action names\<close>

lemma action_type_switch: "action_type a \<in> set switch_order"
  by (cases a) (simp_all add: switch_order_def)

text \<open>C39: when every action creator keeps its source name, the name-based switch is the reducer on the action's constructor.\<close>

theorem autocompleteReducer_named_dev: "autocompleteReducer_named id s a = autocompleteReducer s a"
  by (cases a) (simp_all add: autocompleteReducer_named_def switch_order_def)

text \<open>C40: when a minifier renames the action creators to names that are not type literals, every action falls into the default branch and leaves the state unchanged.\<close>

theorem autocompleteReducer_named_renamed:
  assumes "\<forall>n \<in> set switch_order. fname n \<notin> set switch_order"
  shows "autocompleteReducer_named fname s a = s"
proof -
  have "find (\<lambda>n. fname n = action_type a) switch_order = None"
    using assms action_type_switch [of a] by (auto simp: find_None_iff)
  then show ?thesis by (simp add: autocompleteReducer_named_def)
qed

theorem autocompleteReducer_named_renamed_witness:
  "autocompleteReducer_named (\<lambda>n. [hd n]) initialState (changeText ''react'') = initialState"
  using autocompleteReducer_named_renamed [of "\<lambda>n. [hd n]" initialState "changeText ''react''"]
  by (simp add: switch_order_def)

end
