(* ===== verification/Keyboard.thy ===== *)
theory Keyboard
  imports Reducer
begin

text \<open>
  The keyboard layer of \<open>src/src/components/Autocomplete/Autocomplete.jsx\<close>:
  \<open>useAutocompleteState\<close> keeps \<open>highlightedIndex\<close> (React state, initially
  \<open>-1\<close>) and maps key codes and blur to highlight moves and to calls of
  \<open>onSelect\<close>. Each handler returns the new highlight and the selection it passes
  to \<open>onSelect\<close>, if any; the controller dispatches \<open>selectItem\<close> with it.
  The render conditions of the list and of the highlighted option close the theory's
  definitions.
\<close>

definition DOWN_ARROW :: int where "DOWN_ARROW = 40"
definition UP_ARROW :: int where "UP_ARROW = 38"
definition ENTER :: int where "ENTER = 13"
definition ESCAPE :: int where "ESCAPE = 27"

definition hasItems :: "item list \<Rightarrow> bool" where
  "hasItems its \<longleftrightarrow> 0 < length its"

text \<open>\<open>onDismiss\<close>: Escape and blur. With items, reset the highlight and select the typed text.\<close>

definition onDismiss :: "item list \<Rightarrow> string \<Rightarrow> int \<Rightarrow> int \<times> selected option" where
  "onDismiss its txt h = (if hasItems its then (- 1, Some (Typed txt)) else (h, None))"

text \<open>\<open>onKeyDown\<close>: the \<open>switch\<close> on \<open>e.keyCode\<close>.\<close>

definition onKeyDown :: "int \<Rightarrow> item list \<Rightarrow> string \<Rightarrow> int \<Rightarrow> int \<times> selected option" where
  "onKeyDown key its txt h =
     (if key = DOWN_ARROW then (min (h + 1) (int (length its) - 1), None)
      else if key = UP_ARROW then (max (h - 1) 0, None)
      else if key = ENTER then
        (- 1, if h \<ge> 0 \<and> int (length its) > h then Some (Picked (its ! nat h)) else None)
      else if key = ESCAPE then onDismiss its txt h
      else (h, None))"

text \<open>
  The object \<open>useAutocompleteState(items, onSelect, text)\<close> returns, at the
  highlight \<open>h\<close> of its \<open>useState\<close>: its handlers, each giving the new highlight
  and the selection passed to \<open>onSelect\<close>.
\<close>

record autocomplete_state =
  as_onKeyDown :: "int \<Rightarrow> int \<times> selected option"
  as_hasItems :: bool
  as_highlightedIndex :: int
  as_onDismiss :: "int \<times> selected option"

definition useAutocompleteState :: "item list \<Rightarrow> string \<Rightarrow> int \<Rightarrow> autocomplete_state" where
  "useAutocompleteState its txt h =
     \<lparr>as_onKeyDown = (\<lambda>key. onKeyDown key its txt h), as_hasItems = hasItems its,
      as_highlightedIndex = h, as_onDismiss = onDismiss its txt h\<rparr>"

text \<open>
  What \<open>Autocomplete\<close> renders from the controller's state: the alert when there
  is an error; the list when there is no error, the state is not pristine and there
  are items; option \<open>i\<close> marked selected when \<open>highlightedIndex === i\<close>.
\<close>

definition list_visible :: "search_state \<Rightarrow> bool" where
  "list_visible s \<longleftrightarrow> error s = None \<and> \<not> isPristine s \<and> hasItems (items s)"

definition option_highlighted :: "int \<Rightarrow> nat \<Rightarrow> bool" where
  "option_highlighted h i \<longleftrightarrow> h = int i"

text \<open>The highlight after a sequence of key codes, the items and text fixed.\<close>

fun keys_run :: "int list \<Rightarrow> item list \<Rightarrow> string \<Rightarrow> int \<Rightarrow> int" where
  "keys_run [] its txt h = h"
| "keys_run (k # ks) its txt h = keys_run ks its txt (fst (onKeyDown k its txt h))"

text \<open>The highlight stays on an option of the list, or on none (\<open>-1\<close>).\<close>

definition highlight_ok :: "item list \<Rightarrow> int \<Rightarrow> bool" where
  "highlight_ok its h \<longleftrightarrow> - 1 \<le> h \<and> h < int (length its)"

subsection \<open>Highlight movement\<close>

lemma useAutocompleteState_fields [simp]:
  "as_onKeyDown (useAutocompleteState its txt h) key = onKeyDown key its txt h"
  "as_hasItems (useAutocompleteState its txt h) = hasItems its"
  "as_highlightedIndex (useAutocompleteState its txt h) = h"
  "as_onDismiss (useAutocompleteState its txt h) = onDismiss its txt h"
  by (simp_all add: useAutocompleteState_def)

lemma onKeyDown_highlight_ok:
  assumes "hasItems its" and "highlight_ok its h"
  shows "highlight_ok its (fst (onKeyDown k its txt h))"
  using assms by (auto simp: onKeyDown_def onDismiss_def highlight_ok_def hasItems_def)

text \<open>C33: with a non-empty item list, every key sequence keeps the highlight on an option or on none.\<close>

theorem keys_run_highlight_ok:
  assumes "hasItems its" and "highlight_ok its h"
  shows "highlight_ok its (keys_run ks its txt h)"
  using assms(2)
proof (induction ks arbitrary: h)
  case Nil
  then show ?case by simp
next
  case (Cons k ks)
  then show ?case using onKeyDown_highlight_ok [OF assms(1)] by simp
qed

lemma keys_run_down:
  assumes "h \<le> int (length its) - 1"
  shows "keys_run (replicate n DOWN_ARROW) its txt h = min (h + int n) (int (length its) - 1)"
  using assms
proof (induction n arbitrary: h)
  case 0
  then show ?case by simp
next
  case (Suc n)
  have "keys_run (replicate (Suc n) DOWN_ARROW) its txt h
      = keys_run (replicate n DOWN_ARROW) its txt (min (h + 1) (int (length its) - 1))"
    by (simp add: onKeyDown_def)
  also have "\<dots> = min (min (h + 1) (int (length its) - 1) + int n) (int (length its) - 1)"
    by (rule Suc.IH) simp
  also have "\<dots> = min (h + int (Suc n)) (int (length its) - 1)" by simp
  finally show ?case .
qed

lemma keys_run_up:
  assumes "0 < n"
  shows "keys_run (replicate n UP_ARROW) its txt h = max (h - int n) 0"
  using assms
proof (induction n arbitrary: h)
  case 0
  then show ?case by simp
next
  case (Suc n)
  show ?case
  proof (cases n)
    case 0
    then show ?thesis by (simp add: onKeyDown_def UP_ARROW_def DOWN_ARROW_def)
  next
    case (Suc m)
    then have "keys_run (replicate n UP_ARROW) its txt (max (h - 1) 0) = max (max (h - 1) 0 - int n) 0"
      using Suc.IH by simp
    then show ?thesis by (simp add: onKeyDown_def UP_ARROW_def DOWN_ARROW_def)
  qed
qed

text \<open>Any number n of Down keys from no highlight move to option n-1, saturating at the last option.\<close>

theorem keys_run_down_from_none:
  "keys_run (replicate n DOWN_ARROW) its txt (- 1) = min (int n - 1) (int (length its) - 1)"
  using keys_run_down [of "- 1" its n "txt"] by simp

text \<open>N > 0 Up keys move the highlight up by n, stopping at the first option.\<close>

theorem keys_run_up_saturates:
  assumes "0 < n"
  shows "keys_run (replicate n UP_ARROW) its txt h = max (h - int n) 0"
  using assms by (rule keys_run_up)

theorem keys_run_up_saturates_witness: "keys_run (replicate 2 UP_ARROW) [] ''a'' 0 = 0"
  using keys_run_up_saturates [of 2 "[]" "''a''" 0] by simp

text \<open>Enter on a highlighted option selects that option and resets the highlight; Enter on no option selects nothing and resets it too.\<close>

theorem enter_commits:
  "onKeyDown ENTER its txt h =
     (- 1, if 0 \<le> h \<and> h < int (length its) then Some (Picked (its ! nat h)) else None)"
  by (auto simp: onKeyDown_def ENTER_def DOWN_ARROW_def UP_ARROW_def)

text \<open>Up on an empty list moves the highlight from none to 0, an index outside the list.\<close>

theorem up_on_empty_list: "fst (onKeyDown UP_ARROW [] txt (- 1)) = 0 \<and> \<not> highlight_ok [] 0"
  by (simp add: onKeyDown_def UP_ARROW_def DOWN_ARROW_def highlight_ok_def)

theorem keys_run_highlight_ok_witness:
  "highlight_ok [\<lparr>item_id = 1, title = ''A'', isOpen = True, labels = []\<rparr>]
     (keys_run [DOWN_ARROW, DOWN_ARROW, UP_ARROW, 65] [\<lparr>item_id = 1, title = ''A'', isOpen = True, labels = []\<rparr>] ''a'' (- 1))"
  using keys_run_highlight_ok [of "[\<lparr>item_id = 1, title = ''A'', isOpen = True, labels = []\<rparr>]" "- 1"
      "[DOWN_ARROW, DOWN_ARROW, UP_ARROW, 65]" "''a''"]
  by (simp add: hasItems_def highlight_ok_def)

end
