(* ===== verification/LazyTimeout.thy ===== *)
theory LazyTimeout
  imports Prelude
begin

text \<open>
  The timers of the page and the hook \<open>useLazyTimeout\<close>
  (\<open>src/src/hooks/useLazyTimeout.js\<close>). The browser keeps a list of pending
  timers, each with its handle, its due time and its callback; \<open>setTimeout\<close>
  returns a fresh positive handle, \<open>clearTimeout\<close> removes a handle, and the
  event loop runs any due timer. The hook keeps one handle in \<open>ref.current\<close>,
  clears it before scheduling again and on unmount. Callbacks are a type parameter:
  the controller instantiates it with its own callbacks and states which of them
  belong to the hook (\<open>own\<close>).
\<close>

record 'cb timer_env =
  clock :: timestamp
  pending :: "(nat \<times> timestamp \<times> 'cb) list"
  next_handle :: nat

definition timers_init :: "timestamp \<Rightarrow> 'cb timer_env" where
  "timers_init t = \<lparr>clock = t, pending = [], next_handle = 1\<rparr>"

text \<open>\<open>setTimeout(cb, ms)\<close>: due \<open>timer_delay ms\<close> after the current time.\<close>

definition setTimeout :: "'cb \<Rightarrow> jsnum \<Rightarrow> 'cb timer_env \<Rightarrow> nat \<times> 'cb timer_env" where
  "setTimeout cb ms e =
     (next_handle e,
      e\<lparr>pending := pending e @ [(next_handle e, clock e + timer_delay ms, cb)],
        next_handle := Suc (next_handle e)\<rparr>)"

definition clearTimeout :: "nat \<Rightarrow> 'cb timer_env \<Rightarrow> 'cb timer_env" where
  "clearTimeout i e = e\<lparr>pending := filter (\<lambda>(j, _, _). j \<noteq> i) (pending e)\<rparr>"

text \<open>
  The event loop runs the timer with handle \<open>i\<close> once it is due: it leaves the
  list and its callback is returned to the caller, which runs it. \<open>None\<close>: no
  such pending timer, or not yet due.
\<close>

definition timer_fire :: "nat \<Rightarrow> 'cb timer_env \<Rightarrow> ('cb \<times> 'cb timer_env) option" where
  "timer_fire i e =
     (case find (\<lambda>(j, _, _). j = i) (pending e) of
        None \<Rightarrow> None
      | Some (_, due, cb) \<Rightarrow>
          if due \<le> clock e
          then Some (cb, e\<lparr>pending := filter (\<lambda>(j, _, _). j \<noteq> i) (pending e)\<rparr>)
          else None)"

definition advance :: "int \<Rightarrow> 'cb timer_env \<Rightarrow> 'cb timer_env" where
  "advance d e = e\<lparr>clock := clock e + d\<rparr>"

subsection \<open>The hook\<close>

text \<open>
  \<open>_clearTiemout\<close>: clear the handle in \<open>ref.current\<close> if it is truthy (a
  handle is a number; 0 would be falsy). \<open>_setTimeout(fn, ms)\<close>: clear, then
  store the new handle. The effect's cleanup runs \<open>_clearTiemout\<close> on unmount.
\<close>

type_synonym lazy_ref = "nat option"

definition lazy_clear :: "lazy_ref \<Rightarrow> 'cb timer_env \<Rightarrow> 'cb timer_env" where
  "lazy_clear r e = (case r of Some i \<Rightarrow> if i \<noteq> 0 then clearTimeout i e else e | None \<Rightarrow> e)"

definition setLazyTimeout ::
  "'cb \<Rightarrow> jsnum \<Rightarrow> lazy_ref \<times> 'cb timer_env \<Rightarrow> lazy_ref \<times> 'cb timer_env" where
  "setLazyTimeout fn ms re =
     (let e1 = lazy_clear (fst re) (snd re); (i, e2) = setTimeout fn ms e1 in (Some i, e2))"

definition lazy_unmount :: "lazy_ref \<times> 'cb timer_env \<Rightarrow> lazy_ref \<times> 'cb timer_env" where
  "lazy_unmount re = (fst re, lazy_clear (fst re) (snd re))"

subsection \<open>The hook among other timer users\<close>

text \<open>
  One step of the page as the hook sees it: the hook schedules one of its own
  callbacks, or unmounts; other code schedules a callback that is not the hook's, or
  clears some handle; a due timer fires; time passes.
\<close>

inductive lazy_step ::
  "('cb \<Rightarrow> bool) \<Rightarrow> lazy_ref \<times> 'cb timer_env \<Rightarrow> lazy_ref \<times> 'cb timer_env \<Rightarrow> bool"
  for own :: "'cb \<Rightarrow> bool" where
  schedule: "own fn \<Longrightarrow> lazy_step own re (setLazyTimeout fn ms re)"
| unmount: "lazy_step own re (lazy_unmount re)"
| other_set: "\<not> own cb \<Longrightarrow> lazy_step own (r, e) (r, snd (setTimeout cb ms e))"
| other_clear: "lazy_step own (r, e) (r, clearTimeout i e)"
| fire: "timer_fire i e = Some (cb, e') \<Longrightarrow> lazy_step own (r, e) (r, e')"
| tick: "0 \<le> d \<Longrightarrow> lazy_step own (r, e) (r, advance d e)"

inductive lazy_steps ::
  "('cb \<Rightarrow> bool) \<Rightarrow> lazy_ref \<times> 'cb timer_env \<Rightarrow> lazy_ref \<times> 'cb timer_env \<Rightarrow> bool"
  for own :: "'cb \<Rightarrow> bool" where
  refl: "lazy_steps own re re"
| step: "lazy_step own re re' \<Longrightarrow> lazy_steps own re' re'' \<Longrightarrow> lazy_steps own re re''"

text \<open>
  Well-formed timer lists: handles are positive, below the next handle, and
  distinct. The hook's invariant: every pending timer with one of its callbacks is
  the one whose handle \<open>ref.current\<close> holds.
\<close>

definition timers_wf :: "'cb timer_env \<Rightarrow> bool" where
  "timers_wf e \<longleftrightarrow>
     0 < next_handle e \<and> distinct (map fst (pending e))
     \<and> (\<forall>(i, _, _) \<in> set (pending e). 0 < i \<and> i < next_handle e)"

definition lazy_inv :: "('cb \<Rightarrow> bool) \<Rightarrow> lazy_ref \<times> 'cb timer_env \<Rightarrow> bool" where
  "lazy_inv own re \<longleftrightarrow>
     timers_wf (snd re)
     \<and> (case fst re of Some i \<Rightarrow> 0 < i \<and> i < next_handle (snd re) | None \<Rightarrow> True)
     \<and> (\<forall>(i, _, c) \<in> set (pending (snd re)). own c \<longrightarrow> fst re = Some i)"

definition owned_pending :: "('cb \<Rightarrow> bool) \<Rightarrow> 'cb timer_env \<Rightarrow> nat list" where
  "owned_pending own e = map fst (filter (\<lambda>(_, _, c). own c) (pending e))"

text \<open>A handle that was issued and is no longer pending: it can never fire again.\<close>

definition gone :: "nat \<Rightarrow> 'cb timer_env \<Rightarrow> bool" where
  "gone i e \<longleftrightarrow> i \<notin> fst ` set (pending e) \<and> i < next_handle e"

subsection \<open>Timer lists and the hook invariant\<close>

lemma timers_wf_init: "timers_wf (timers_init t)"
  by (simp add: timers_wf_def timers_init_def)

lemma timers_wf_setTimeout:
  "timers_wf e \<Longrightarrow> timers_wf (snd (setTimeout cb ms e))"
  by (auto simp: timers_wf_def setTimeout_def)

lemma timers_wf_clearTimeout:
  "timers_wf e \<Longrightarrow> timers_wf (clearTimeout i e)"
  by (auto simp: timers_wf_def clearTimeout_def distinct_map_filter)

lemma timer_fire_Some:
  assumes "timer_fire i e = Some (cb, e')"
  shows "e' = clearTimeout i e \<and> (\<exists>due. (i, due, cb) \<in> set (pending e) \<and> due \<le> clock e)"
  using assms
  by (auto simp: timer_fire_def clearTimeout_def split: option.splits if_splits dest!: find_Some_iff [THEN iffD1])
     (auto simp: in_set_conv_nth)

lemma timer_fire_not_pending:
  "i \<notin> fst ` set (pending e) \<Longrightarrow> timer_fire i e = None"
  by (auto simp: timer_fire_def find_None_iff split: option.splits dest!: find_Some_iff [THEN iffD1])
     (force simp: in_set_conv_nth)

lemma timers_wf_advance: "timers_wf e \<Longrightarrow> timers_wf (advance d e)"
  by (simp add: timers_wf_def advance_def)

lemma timers_wf_lazy_clear: "timers_wf e \<Longrightarrow> timers_wf (lazy_clear r e)"
  by (simp add: lazy_clear_def timers_wf_clearTimeout split: option.splits)

lemma clearTimeout_fields [simp]:
  "next_handle (clearTimeout i e) = next_handle e" "clock (clearTimeout i e) = clock e"
  by (simp_all add: clearTimeout_def)

lemma lazy_clear_fields [simp]:
  "next_handle (lazy_clear r e) = next_handle e" "clock (lazy_clear r e) = clock e"
  by (simp_all add: lazy_clear_def clearTimeout_def split: option.splits)

lemma setLazyTimeout_eq:
  "setLazyTimeout fn ms (r, e) =
     (Some (next_handle e), snd (setTimeout fn ms (lazy_clear r e)))"
  by (simp add: setLazyTimeout_def setTimeout_def Let_def)

lemma lazy_step_wf: "lazy_step own re re' \<Longrightarrow> timers_wf (snd re) \<Longrightarrow> timers_wf (snd re')"
  by (induction rule: lazy_step.induct)
     (auto simp: setLazyTimeout_eq lazy_unmount_def split_beta timers_wf_lazy_clear
        timers_wf_setTimeout timers_wf_clearTimeout timers_wf_advance dest: timer_fire_Some)

lemma lazy_clear_no_owned:
  assumes "lazy_inv own (r, e)"
  shows "\<forall>(i, _, c) \<in> set (pending (lazy_clear r e)). \<not> own c"
  using assms by (auto simp: lazy_inv_def lazy_clear_def clearTimeout_def split: option.splits)

lemma pending_lazy_clear_subset: "set (pending (lazy_clear r e)) \<subseteq> set (pending e)"
  by (auto simp: lazy_clear_def clearTimeout_def split: option.splits)

lemma pending_clearTimeout: "set (pending (clearTimeout i e)) = {x \<in> set (pending e). fst x \<noteq> i}"
  by (auto simp: clearTimeout_def)

lemma lazy_step_inv: "lazy_step own re re' \<Longrightarrow> lazy_inv own re \<Longrightarrow> lazy_inv own re'"
proof (induction rule: lazy_step.induct)
  case (schedule fn re ms)
  obtain r e where re: "re = (r, e)" by fastforce
  with schedule show ?case
    using lazy_clear_no_owned [of own r e] timers_wf_setTimeout [of "lazy_clear r e" fn ms]
      timers_wf_lazy_clear [of e r]
    by (auto simp: lazy_inv_def setLazyTimeout_eq setTimeout_def timers_wf_def)
next
  case (unmount re)
  obtain r e where re: "re = (r, e)" by fastforce
  with unmount show ?case
    using lazy_clear_no_owned [of own r e] timers_wf_lazy_clear [of e r]
    by (auto simp: lazy_inv_def lazy_unmount_def split: option.splits)
next
  case (other_set cb r e ms)
  then show ?case
    by (auto simp: lazy_inv_def setTimeout_def timers_wf_def split: option.splits)
next
  case (other_clear r e i)
  then show ?case
    using timers_wf_clearTimeout [of e i]
    by (auto simp: lazy_inv_def pending_clearTimeout split: option.splits)
next
  case (fire i e cb e' r)
  then show ?case
    using timers_wf_clearTimeout [of e i] timer_fire_Some [OF fire.hyps]
    by (auto simp: lazy_inv_def pending_clearTimeout split: option.splits)
next
  case (tick d r e)
  then show ?case
    by (auto simp: lazy_inv_def advance_def timers_wf_def split: option.splits)
qed

lemma lazy_steps_inv: "lazy_steps own re re' \<Longrightarrow> lazy_inv own re \<Longrightarrow> lazy_inv own re'"
  by (induction rule: lazy_steps.induct) (auto dest: lazy_step_inv)


lemma distinct_all_same: "distinct xs \<Longrightarrow> \<forall>x \<in> set xs. x = a \<Longrightarrow> length xs \<le> 1"
  by (cases xs; cases "tl xs") auto

lemma lazy_inv_owned_pending: "lazy_inv own (r, e) \<Longrightarrow> length (owned_pending own e) \<le> 1"
proof -
  assume inv: "lazy_inv own (r, e)"
  then have "distinct (map fst (pending e))" by (simp add: lazy_inv_def timers_wf_def)
  then have d: "distinct (owned_pending own e)"
    by (simp add: owned_pending_def distinct_map_filter)
  from inv have "\<forall>x \<in> set (owned_pending own e). Some x = r"
    by (auto simp: lazy_inv_def owned_pending_def)
  then have "\<forall>x \<in> set (owned_pending own e). x = the r" by force
  with d show ?thesis by (rule distinct_all_same)
qed

lemma lazy_step_gone: "lazy_step own re re' \<Longrightarrow> gone i (snd re) \<Longrightarrow> gone i (snd re')"
proof (induction rule: lazy_step.induct)
  case (schedule fn re ms)
  obtain r e where "re = (r, e)" by fastforce
  with schedule show ?case
    using pending_lazy_clear_subset [of r e]
    by (auto simp: gone_def setLazyTimeout_eq setTimeout_def)
next
  case (unmount re)
  then show ?case
    using pending_lazy_clear_subset [of "fst re" "snd re"]
    by (auto simp: gone_def lazy_unmount_def)
next
  case (other_set cb r e ms)
  then show ?case by (auto simp: gone_def setTimeout_def)
next
  case (other_clear r e i')
  then show ?case by (auto simp: gone_def pending_clearTimeout)
next
  case (fire i' e cb e' r)
  then show ?case using timer_fire_Some [OF fire.hyps]
    by (auto simp: gone_def pending_clearTimeout)
next
  case (tick d r e)
  then show ?case by (simp add: gone_def advance_def)
qed

lemma lazy_steps_gone: "lazy_steps own re re' \<Longrightarrow> gone i (snd re) \<Longrightarrow> gone i (snd re')"
  by (induction rule: lazy_steps.induct) (auto dest: lazy_step_gone)

lemma gone_timer_fire: "gone i e \<Longrightarrow> timer_fire i e = None"
  by (simp add: gone_def timer_fire_not_pending)

lemma timer_fire_last:
  assumes "j \<notin> fst ` set ps" and "due \<le> clock e" and "pending e = ps @ [(j, due, f)]"
  shows "timer_fire j e = Some (f, clearTimeout j e)"
proof -
  have "find (\<lambda>(h, _, _). h = j) ps = None"
    using assms(1) by (force simp: find_None_iff)
  then show ?thesis using assms(2,3) by (simp add: timer_fire_def find_append clearTimeout_def)
qed


text \<open>C23: in every run of the page from no timers, at most one timer with a callback of the hook is pending.\<close>

theorem lazy_timeout_at_most_one:
  assumes "lazy_steps own (None, timers_init t) (r, e)"
  shows "length (owned_pending own e) \<le> 1"
proof -
  have "lazy_inv own (None, timers_init t)"
    by (simp add: lazy_inv_def timers_wf_init) (simp add: timers_init_def)
  with assms have "lazy_inv own (r, e)" by (rule lazy_steps_inv)
  then show ?thesis by (rule lazy_inv_owned_pending)
qed

text \<open>C21: a callback scheduled through the hook and then superseded by a second schedule never fires, whatever happens afterwards.\<close>

theorem superseded_never_fires:
  assumes wf: "timers_wf e"
    and first: "setLazyTimeout f1 ms1 (r, e) = (Some i, e1)"
    and run: "lazy_steps own (setLazyTimeout f2 ms2 (Some i, e1)) (r', e')"
  shows "timer_fire i e' = None"
proof -
  from first wf have i: "i = next_handle e" "0 < i" and n: "next_handle e1 = Suc i"
    by (auto simp: setLazyTimeout_eq setTimeout_def timers_wf_def)
  have "gone i (snd (setLazyTimeout f2 ms2 (Some i, e1)))"
    using i n by (auto simp: gone_def setLazyTimeout_eq setTimeout_def lazy_clear_def
        pending_clearTimeout)
  with run have "gone i e'" using lazy_steps_gone by fastforce
  then show ?thesis by (rule gone_timer_fire)
qed

text \<open>C22: after unmount the callback pending in the hook never fires, whatever happens afterwards.\<close>

theorem unmount_never_fires:
  assumes inv: "lazy_inv own (Some i, e)"
    and run: "lazy_steps own (lazy_unmount (Some i, e)) (r', e')"
  shows "timer_fire i e' = None"
proof -
  from inv have "0 < i" "i < next_handle e" by (auto simp: lazy_inv_def)
  then have "gone i (snd (lazy_unmount (Some i, e)))"
    by (auto simp: gone_def lazy_unmount_def lazy_clear_def pending_clearTimeout)
  with run have "gone i e'" using lazy_steps_gone by fastforce
  then show ?thesis by (rule gone_timer_fire)
qed

text \<open>C24: the callback scheduled last through the hook fires once its delay has passed.\<close>

theorem latest_fires_when_due:
  assumes wf: "timers_wf e"
    and sched: "setLazyTimeout f ms (r, e) = (Some j, e2)"
    and due: "timer_delay ms \<le> d"
  shows "\<exists>e'. timer_fire j (advance d e2) = Some (f, e')"
proof -
  have j: "j = next_handle e" using sched by (simp add: setLazyTimeout_eq)
  have old: "find (\<lambda>(h, _, _). h = j) (pending (lazy_clear r e)) = None"
    using wf pending_lazy_clear_subset [of r e] j
    by (force simp: find_None_iff timers_wf_def)
  have "pending e2 = pending (lazy_clear r e) @ [(j, clock e + timer_delay ms, f)]"
    using sched j by (auto simp: setLazyTimeout_eq setTimeout_def)
  moreover have "clock e2 = clock e" using sched by (auto simp: setLazyTimeout_eq setTimeout_def)
  ultimately show ?thesis using old due
    by (simp add: timer_fire_def advance_def find_append)
qed

lemma timer_delay_100: "timer_delay (Num 100) = 100"
  by (simp add: timer_delay_def js_toint32_small)

theorem lazy_timeout_at_most_one_witness:
  "length (owned_pending (\<lambda>_. True)
     (snd (setLazyTimeout ''b'' (Num 100) (setLazyTimeout ''a'' (Num 100) (None, timers_init 0))))) \<le> 1"
proof -
  let ?re1 = "setLazyTimeout ''a'' (Num 100) (None, timers_init 0)"
  have "lazy_steps (\<lambda>_. True) (None, timers_init 0) (setLazyTimeout ''b'' (Num 100) ?re1)"
    by (rule lazy_steps.step [OF lazy_step.schedule lazy_steps.step [OF lazy_step.schedule lazy_steps.refl]]) simp_all
  then show ?thesis
    using lazy_timeout_at_most_one [of "\<lambda>_. True" 0 "fst (setLazyTimeout ''b'' (Num 100) ?re1)"
        "snd (setLazyTimeout ''b'' (Num 100) ?re1)"]
    by simp
qed

theorem superseded_never_fires_witness:
  "timer_fire 1 (advance 100 (snd (setLazyTimeout ''second'' (Num 100)
     (setLazyTimeout ''first'' (Num 100) (None, timers_init (0::int)))))) = None"
proof -
  let ?e1 = "snd (setLazyTimeout ''first'' (Num 100) (None, timers_init 0))"
  have wf: "timers_wf (timers_init 0 :: string timer_env)" by (rule timers_wf_init)
  have first: "setLazyTimeout ''first'' (Num 100) (None, timers_init 0) = (Some 1, ?e1)"
    by (simp add: setLazyTimeout_eq timers_init_def)
  have run: "lazy_steps (\<lambda>_. True) (setLazyTimeout ''second'' (Num 100) (Some 1, ?e1))
      (fst (setLazyTimeout ''second'' (Num 100) (Some 1, ?e1)),
       advance 100 (snd (setLazyTimeout ''second'' (Num 100) (Some 1, ?e1))))"
    by (rule lazy_steps.step [OF _ lazy_steps.refl], cases "setLazyTimeout ''second'' (Num 100) (Some 1, ?e1)")
       (auto intro: lazy_step.tick)
  from superseded_never_fires [OF wf first run] first show ?thesis by simp
qed

theorem unmount_never_fires_witness:
  "timer_fire 1 (snd (lazy_unmount (setLazyTimeout ''dismiss'' (Num 100) (None, timers_init (0::int))))) = None"
proof -
  let ?re = "setLazyTimeout ''dismiss'' (Num 100) (None, timers_init 0)"
  have re: "?re = (Some 1, snd ?re)" by (simp add: setLazyTimeout_eq timers_init_def)
  have inv: "lazy_inv (\<lambda>_. True) (Some 1, snd ?re)"
    by (simp add: lazy_inv_def setLazyTimeout_eq timers_init_def setTimeout_def lazy_clear_def
        timers_wf_def)
  have run: "lazy_steps (\<lambda>_. True) (lazy_unmount (Some 1, snd ?re)) (lazy_unmount (Some 1, snd ?re))"
    by (rule lazy_steps.refl)
  from unmount_never_fires [OF inv, of "fst (lazy_unmount (Some 1, snd ?re))" "snd (lazy_unmount (Some 1, snd ?re))"] run re
  show ?thesis by simp
qed

theorem latest_fires_when_due_witness:
  "\<exists>e'. timer_fire 1 (advance 100 (snd (setLazyTimeout ''second'' (Num 100) (None, timers_init (0::int)))))
     = Some (''second'', e')"
proof -
  have wf: "timers_wf (timers_init 0 :: string timer_env)" by (rule timers_wf_init)
  have sched: "setLazyTimeout ''second'' (Num 100) (None, timers_init 0)
      = (Some 1, snd (setLazyTimeout ''second'' (Num 100) (None, timers_init (0::int))))"
    by (simp add: setLazyTimeout_eq timers_init_def)
  have "timer_delay (Num 100) \<le> 100" by (simp add: timer_delay_100)
  from latest_fires_when_due [OF wf sched this] show ?thesis .
qed

subsection \<open>The delay of setTimeout\<close>

lemma timer_delay_bounds: "0 \<le> timer_delay ms \<and> timer_delay ms < 2 ^ 31"
  using js_toint32_range [of ms] by (simp add: timer_delay_def)

text \<open>SetTimeout waits exactly the requested delay when it lies in [0, 2^31) ms.\<close>

lemma timer_delay_Num:
  assumes "0 \<le> n" and "n < 2 ^ 31"
  shows "timer_delay (Num n) = n"
proof -
  have "js_toint32 (Num n) = n" using assms by (intro js_toint32_small) simp_all
  with assms show ?thesis by (simp add: timer_delay_def)
qed

text \<open>A delay in [2^31, 2^32) ms wraps around in ToInt32 to a negative one: the timer is due at once.\<close>

lemma timer_delay_wrap:
  assumes "2 ^ 31 \<le> n" and "n < 2 ^ 32"
  shows "timer_delay (Num n) = 0"
  using js_toint32_wrap [OF assms] assms(2) by (simp add: timer_delay_def del: js_toint32.simps)

end
