(* ===== verification/Throttle.thy ===== *)
theory Throttle
  imports LazyTimeout
begin

text \<open>
  \<open>throttle(onSearch, 2000)\<close> from \<open>lodash/throttle\<close>, which the controller
  wraps around its search (\<open>useAutocomplete.js\<close>, line 178). Lodash builds it as
  \<open>debounce(func, wait, {leading: true, trailing: true, maxWait: wait})\<close>; the
  state below is the closure state of that \<open>debounce\<close> (\<open>lastArgs\<close>,
  \<open>lastCallTime\<close>, \<open>lastInvokeTime\<close>, \<open>timerId\<close>) and the two entry points
  are the throttled function itself and \<open>timerExpired\<close>, the callback of its
  timer. Its timer lives in the page's timer list of \<open>LazyTimeout\<close>; the caller
  names the callback value \<open>cb\<close> that stands for \<open>timerExpired\<close>. Each entry
  point returns the arguments it invokes \<open>func\<close> with, if it does.
\<close>

record 'a throttle =
  lastArgs :: "'a option"
  lastCallTime :: "timestamp option"
  lastInvokeTime :: timestamp
  timerId :: "nat option"

definition throttle_init :: "'a throttle" where
  "throttle_init = \<lparr>lastArgs = None, lastCallTime = None, lastInvokeTime = 0, timerId = None\<rparr>"

text \<open>\<open>shouldInvoke\<close>, with \<open>maxing\<close> true and \<open>maxWait = wait\<close>.\<close>

definition shouldInvoke :: "int \<Rightarrow> 'a throttle \<Rightarrow> timestamp \<Rightarrow> bool" where
  "shouldInvoke wait th time =
     (case lastCallTime th of
        None \<Rightarrow> True
      | Some lc \<Rightarrow> wait \<le> time - lc \<or> time - lc < 0 \<or> wait \<le> time - lastInvokeTime th)"

text \<open>
  \<open>remainingWait\<close>: \<open>Math.min(wait - timeSinceLastCall, maxWait - timeSinceLastInvoke)\<close>;
  with \<open>lastCallTime\<close> undefined the difference is \<open>NaN\<close>.
\<close>

definition remainingWait :: "int \<Rightarrow> 'a throttle \<Rightarrow> timestamp \<Rightarrow> jsnum" where
  "remainingWait wait th time =
     (case lastCallTime th of
        None \<Rightarrow> NaN
      | Some lc \<Rightarrow> Num (min (wait - (time - lc)) (wait - (time - lastInvokeTime th))))"

text \<open>
  The throttled function called with \<open>x\<close> at the current time: record the call;
  then the leading edge (no timer: start one and invoke), the tight-loop case of
  \<open>maxing\<close> (restart the timer and invoke), or just make sure a timer runs.
\<close>

definition throttle_call ::
  "int \<Rightarrow> 'cb \<Rightarrow> 'a \<Rightarrow> 'a throttle \<times> 'cb timer_env \<Rightarrow> ('a throttle \<times> 'cb timer_env) \<times> 'a option" where
  "throttle_call wait cb x te =
     (let th = fst te; e = snd te; time = clock e;
          isInvoking = shouldInvoke wait th time;
          th1 = th\<lparr>lastArgs := Some x, lastCallTime := Some time\<rparr>
      in if isInvoking \<and> timerId th1 = None then
           (let (i, e1) = setTimeout cb (Num wait) e
            in ((th1\<lparr>timerId := Some i, lastArgs := None, lastInvokeTime := time\<rparr>, e1), Some x))
         else if isInvoking then
           (let (i, e1) = setTimeout cb (Num wait) (clearTimeout (the (timerId th1)) e)
            in ((th1\<lparr>timerId := Some i, lastArgs := None, lastInvokeTime := time\<rparr>, e1), Some x))
         else if timerId th1 = None then
           (let (i, e1) = setTimeout cb (Num wait) e in ((th1\<lparr>timerId := Some i\<rparr>, e1), None))
         else ((th1, e), None))"

text \<open>
  \<open>timerExpired\<close>, run when the throttle's timer fires: the trailing edge
  (forget the timer, invoke with the last arguments if a call came since the last
  invocation), or a new timer for the remaining wait.
\<close>

definition throttle_timer ::
  "int \<Rightarrow> 'cb \<Rightarrow> 'a throttle \<times> 'cb timer_env \<Rightarrow> ('a throttle \<times> 'cb timer_env) \<times> 'a option" where
  "throttle_timer wait cb te =
     (let th = fst te; e = snd te; time = clock e
      in if shouldInvoke wait th time then
           (case lastArgs th of
              Some x \<Rightarrow> ((th\<lparr>timerId := None, lastArgs := None, lastInvokeTime := time\<rparr>, e), Some x)
            | None \<Rightarrow> ((th\<lparr>timerId := None, lastArgs := None\<rparr>, e), None))
         else
           (let (i, e1) = setTimeout cb (remainingWait wait th time) e
            in ((th\<lparr>timerId := Some i\<rparr>, e1), None)))"

subsection \<open>Leading edge, coalescing, trailing edge\<close>

text \<open>A call with no timer running and no call in the last wait ms is invoked at once (leading edge).\<close>

lemma throttle_call_quiet:
  assumes "timerId th = None"
    and "lastCallTime th = None \<or> (\<exists>lc. lastCallTime th = Some lc \<and> wait \<le> clock e - lc)"
  shows "snd (throttle_call wait cb x (th, e)) = Some x"
  using assms by (auto simp: throttle_call_def shouldInvoke_def Let_def split_beta)

lemma throttle_call_coalesce:
  assumes "timerId th \<noteq> None" and "\<not> shouldInvoke wait th (clock e)"
  shows "throttle_call wait cb x (th, e) = ((th\<lparr>lastArgs := Some x, lastCallTime := Some (clock e)\<rparr>, e), None)"
  using assms by (auto simp: throttle_call_def Let_def)

lemma throttle_timer_trailing:
  assumes "shouldInvoke wait th (clock e)" and "lastArgs th = Some x"
  shows "snd (throttle_timer wait cb (th, e)) = Some x"
  using assms by (simp add: throttle_timer_def Let_def)

text \<open>Calls inside the window are not invoked; when the timer fires after the window, the latest call's arguments are invoked (trailing edge).\<close>

lemma throttle_latest_wins:
  assumes pend: "timerId th \<noteq> None"
    and w1: "\<not> shouldInvoke wait th (clock e)"
    and w2: "\<not> shouldInvoke wait (th\<lparr>lastArgs := Some x, lastCallTime := Some (clock e)\<rparr>) (clock e)"
    and due: "shouldInvoke wait (th\<lparr>lastArgs := Some y, lastCallTime := Some (clock e)\<rparr>) t"
  shows "snd (throttle_call wait cb x (th, e)) = None
       \<and> snd (throttle_call wait cb y (fst (fst (throttle_call wait cb x (th, e))), e)) = None
       \<and> snd (throttle_timer wait cb
             (fst (fst (throttle_call wait cb y (fst (fst (throttle_call wait cb x (th, e))), e))),
              e\<lparr>clock := t\<rparr>)) = Some y"
proof -
  let ?th1 = "th\<lparr>lastArgs := Some x, lastCallTime := Some (clock e)\<rparr>"
  have c1: "throttle_call wait cb x (th, e) = ((?th1, e), None)"
    using pend w1 by (rule throttle_call_coalesce)
  have c2: "throttle_call wait cb y (?th1, e) = ((?th1\<lparr>lastArgs := Some y, lastCallTime := Some (clock e)\<rparr>, e), None)"
    using pend w2 by (intro throttle_call_coalesce) simp_all
  have "snd (throttle_timer wait cb (?th1\<lparr>lastArgs := Some y, lastCallTime := Some (clock e)\<rparr>, e\<lparr>clock := t\<rparr>)) = Some y"
    using due by (intro throttle_timer_trailing) simp_all
  with c1 c2 show ?thesis by simp
qed

lemma throttle_call_quiet_example:
  "snd (throttle_call 2000 () ''react'' (throttle_init, timers_init 5000)) = Some ''react''"
  using throttle_call_quiet [of "throttle_init :: string throttle" 2000 "timers_init 5000" "()" "''react''"]
  by (simp add: throttle_init_def)

lemma throttle_latest_wins_example:
  "snd (throttle_timer 2000 ()
     (fst (fst (throttle_call 2000 () ''rea''
        (fst (fst (throttle_call 2000 () ''re''
           (\<lparr>lastArgs = None, lastCallTime = Some 0, lastInvokeTime = 0, timerId = Some 1\<rparr>,
            \<lparr>clock = 100, pending = [], next_handle = 2\<rparr>))),
         \<lparr>clock = 100, pending = [], next_handle = 2\<rparr>))),
      \<lparr>clock = 2100, pending = [], next_handle = 2\<rparr>)) = Some ''rea''"
  using throttle_latest_wins [of "\<lparr>lastArgs = None, lastCallTime = Some 0, lastInvokeTime = 0, timerId = Some 1\<rparr>"
      2000 "\<lparr>clock = 100, pending = [], next_handle = 2\<rparr> :: unit timer_env" "''re''" "''rea''" 2100 "()"]
  by (simp add: shouldInvoke_def)

lemma delay_2000: "timer_delay (Num 2000) = 2000"
  by (simp add: timer_delay_def js_toint32_small)

text \<open>Lodash's throttle can invoke twice within 2000 ms: a trailing invocation at 2000 ms and a leading one at 2001 ms.\<close>

lemma throttle_invokes_twice_within_wait:
  "let (te1, a) = throttle_call 2000 () ''a'' (throttle_init, timers_init 0);
       (te2, b) = throttle_call 2000 () ''b'' (fst te1, advance 1 (snd te1));
       (u, e3) = the (timer_fire 1 (advance 1999 (snd te2)));
       (te3, c) = throttle_timer 2000 () (fst te2, e3);
       (te4, d) = throttle_call 2000 () ''c'' (fst te3, advance 1 (snd te3))
   in a = Some ''a'' \<and> b = None \<and> c = Some ''b'' \<and> clock (snd te3) = 2000
      \<and> d = Some ''c'' \<and> clock (snd te4) = 2001"
  by (simp add: throttle_call_def throttle_timer_def throttle_init_def timers_init_def setTimeout_def
        shouldInvoke_def advance_def timer_fire_def delay_2000 Let_def)

end
