(* ===== verification/Controller.thy ===== *)
theory Controller
  imports Keyboard Throttle
begin

text \<open>
  The controller \<open>useAutocomplete\<close> (\<open>src/src/components/Autocomplete/useAutocomplete.js\<close>,
  lines 88--201) wired to the widget of \<open>Autocomplete.jsx\<close>, as one page state
  \<open>sys\<close> and an inductive step relation. The state holds the reducer state, the
  cache of \<open>useCache\<close> (a \<open>Map\<close> from query text to items), the page's timer
  list with the ref of \<open>useLazyTimeout\<close>, the throttle instances created by
  \<open>useCallback(throttle(onSearch, 2000), [onSearch])\<close>, the requests in flight,
  whether the component is mounted, and \<open>highlightedIndex\<close>.

  \<open>onSearch\<close> is split at its \<open>await\<close>: \<open>onSearch\<close> runs the synchronous part
  (empty text, cache, rate-limit gate) and either finishes or issues the request;
  \<open>onSearch_settle\<close> runs the rest when the request settles. \<open>onSearch\<close> reads
  \<open>rateLimitResetTime\<close>, \<open>hasReachedMaxLimit\<close> and \<open>error\<close> from the closure of
  the render that created it: the argument \<open>snap\<close> is that render's state. React
  drops \<open>dispatch\<close> after unmount; \<open>dispatch\<close> below does the same.
\<close>

datatype tcb = DismissError | ThrottleExpired nat

text \<open>
  How a request settles: \<open>fetch\<close> or \<open>response.json()\<close> rejects (network
  failure, a body that is not JSON), or the response arrives with its payload.
\<close>

datatype fetch_outcome = Rejected | Resolved response search_payload

record sys =
  st :: search_state
  cache :: "string \<rightharpoonup> item list"
  timers :: "tcb timer_env"
  lazy :: lazy_ref
  throttles :: "(search_state \<times> string throttle) list"
  inflight :: "(nat \<times> string) list"
  next_req :: nat
  mounted :: bool
  highlightedIndex :: int

definition THROTTLE_WAIT :: int where
  "THROTTLE_WAIT = 2000"

text \<open>\<open>useCache()\<close>: the \<open>Map\<close> that \<open>useRef(new Map())\<close> creates on mount.\<close>

definition useCache :: "string \<rightharpoonup> item list" where
  "useCache = Map.empty"

text \<open>The page right after the first render at time \<open>t\<close>.\<close>

definition sys_init :: "timestamp \<Rightarrow> sys" where
  "sys_init t =
     \<lparr>st = initialState, cache = useCache, timers = timers_init t, lazy = None,
      throttles = [(initialState, throttle_init)], inflight = [], next_req = 0,
      mounted = True, highlightedIndex = - 1\<rparr>"

definition dispatch :: "action \<Rightarrow> sys \<Rightarrow> sys" where
  "dispatch a s = (if mounted s then s\<lparr>st := autocompleteReducer (st s) a\<rparr> else s)"

text \<open>\<open>setDismissableError(error, ms)\<close>: set the error, then (re)schedule its clearing.\<close>

definition setDismissableError :: "error_info \<Rightarrow> jsnum \<Rightarrow> sys \<Rightarrow> sys" where
  "setDismissableError err ms s =
     (let s1 = dispatch (setError (Some err)) s;
          (r, e) = setLazyTimeout DismissError ms (lazy s1, timers s1)
      in s1\<lparr>lazy := r, timers := e\<rparr>)"

text \<open>\<open>handleRateLimit(response)\<close>.\<close>

definition handleRateLimit :: "response \<Rightarrow> sys \<Rightarrow> sys" where
  "handleRateLimit resp s =
     (let rl = getRateLimits resp (clock (timers s));
          s1 = dispatch (updateRateLimits (resetTimestamp rl) (js_eq (remaining rl) (Num 0))) s
      in if status resp = 403 then setDismissableError RATE_LIMIT_ERROR (timeUntilReset rl) s1
         else s1)"

text \<open>\<open>fetchIssues(text)\<close> sends its request; the response is a later event.\<close>

definition fetchIssues :: "string \<Rightarrow> sys \<Rightarrow> sys" where
  "fetchIssues t s = s\<lparr>inflight := inflight s @ [(next_req s, t)], next_req := Suc (next_req s)\<rparr>"

definition onSearch :: "search_state \<Rightarrow> string \<Rightarrow> sys \<Rightarrow> sys" where
  "onSearch snap t s =
     (if t = [] then dispatch (setItems []) s
      else case cache s t of
        Some its \<Rightarrow> dispatch (setItems its) s
      | None \<Rightarrow>
          (let tur = js_sub (rateLimitResetTime snap) (Num (clock (timers s)))
           in if js_gt tur (Num 0) \<and> hasReachedMaxLimit snap then
                (if error snap = None then setDismissableError RATE_LIMIT_ERROR tur s else s)
              else fetchIssues t s))"

text \<open>The condition \<open>timeUntilReset > 0 && hasReachedMaxLimit\<close> of \<open>onSearch\<close>.\<close>

definition rate_gate_closed :: "search_state \<Rightarrow> timestamp \<Rightarrow> bool" where
  "rate_gate_closed snap now \<longleftrightarrow>
     js_gt (js_sub (rateLimitResetTime snap) (Num now)) (Num 0) \<and> hasReachedMaxLimit snap"

text \<open>The code after \<open>await fetchIssues(text)\<close>, and its \<open>catch\<close>.\<close>

definition onSearch_settle :: "string \<Rightarrow> fetch_outcome \<Rightarrow> sys \<Rightarrow> sys" where
  "onSearch_settle t out s =
     (case out of
        Rejected \<Rightarrow> dispatch (setError (Some GENERIC_ERROR)) s
      | Resolved resp data \<Rightarrow>
          (let s1 = handleRateLimit resp s
           in if status resp = 403 then s1
              else if status resp \<noteq> 200 then dispatch (setError (Some GENERIC_ERROR)) s1
              else (case formatIssues data of
                      Inl _ \<Rightarrow> dispatch (setError (Some GENERIC_ERROR)) s1
                    | Inr its \<Rightarrow> dispatch (setItems its) (s1\<lparr>cache := (cache s1)(t \<mapsto> its)\<rparr>))))"

text \<open>
  Throttle instance \<open>k\<close> invoking its \<open>onSearch\<close>, when lodash says so.
  \<open>onSearchThrottled(text)\<close> calls the instance of the last render.
\<close>

definition run_search :: "nat \<Rightarrow> string option \<Rightarrow> sys \<Rightarrow> sys" where
  "run_search k called s = (case called of None \<Rightarrow> s | Some t \<Rightarrow> onSearch (fst (throttles s ! k)) t s)"

definition onSearchThrottled :: "string \<Rightarrow> sys \<Rightarrow> sys" where
  "onSearchThrottled t s =
     (let k = length (throttles s) - 1;
          ((th', e'), called) = throttle_call THROTTLE_WAIT (ThrottleExpired k) t
                               (snd (throttles s ! k), timers s)
      in run_search k called
           (s\<lparr>throttles := (throttles s)[k := (fst (throttles s ! k), th')], timers := e'\<rparr>))"

definition onChangeText :: "string \<Rightarrow> sys \<Rightarrow> sys" where
  "onChangeText t s = onSearchThrottled t (dispatch (changeText t) s)"

text \<open>A fired timer runs its callback.\<close>

definition run_timer :: "tcb \<Rightarrow> sys \<Rightarrow> sys" where
  "run_timer cb s =
     (case cb of
        DismissError \<Rightarrow> dispatch (setError None) s
      | ThrottleExpired k \<Rightarrow>
          if k < length (throttles s) then
            (let ((th', e'), called) = throttle_timer THROTTLE_WAIT (ThrottleExpired k)
                                      (snd (throttles s ! k), timers s)
             in run_search k called
                  (s\<lparr>throttles := (throttles s)[k := (fst (throttles s ! k), th')], timers := e'\<rparr>))
          else s)"

text \<open>
  The render after an event: a change of \<open>onSearch\<close>'s dependencies makes
  \<open>useCallback\<close> build a new throttle instance around the new closure; the old
  instance keeps its timer.
\<close>

definition deps_changed :: "search_state \<Rightarrow> search_state \<Rightarrow> bool" where
  "deps_changed a b \<longleftrightarrow>
     rateLimitResetTime a \<noteq> rateLimitResetTime b \<or> hasReachedMaxLimit a \<noteq> hasReachedMaxLimit b
     \<or> error a \<noteq> error b"

definition render :: "sys \<Rightarrow> sys" where
  "render s =
     (if mounted s \<and> deps_changed (fst (last (throttles s))) (st s)
      then s\<lparr>throttles := throttles s @ [(st s, throttle_init)]\<rparr> else s)"

text \<open>The widget's handlers: keys, blur and click call \<open>onSelect\<close>, which dispatches \<open>selectItem\<close>.\<close>

definition onSelect :: "selected \<Rightarrow> sys \<Rightarrow> sys" where
  "onSelect x s = dispatch (selectItem x) s"

text \<open>
  \<open>Item\<close>'s click handler \<open>onSelectProxy\<close> (\<open>Item.jsx\<close>): \<open>onSelect(item)\<close> with
  its own item. Its \<open>onMouseDown\<close> prevents the default, so the input keeps the focus
  and no blur comes before the click.
\<close>

definition onSelectProxy :: "item \<Rightarrow> sys \<Rightarrow> sys" where
  "onSelectProxy it s = onSelect (Picked it) s"

definition key_down :: "int \<Rightarrow> sys \<Rightarrow> sys" where
  "key_down key s =
     (let (h, sel) = as_onKeyDown (useAutocompleteState (items (st s)) (search_text (st s))
                                   (highlightedIndex s)) key;
          s1 = s\<lparr>highlightedIndex := h\<rparr>
      in case sel of None \<Rightarrow> s1 | Some x \<Rightarrow> onSelect x s1)"

definition blur :: "sys \<Rightarrow> sys" where
  "blur s =
     (let (h, sel) = as_onDismiss (useAutocompleteState (items (st s)) (search_text (st s))
                                   (highlightedIndex s));
          s1 = s\<lparr>highlightedIndex := h\<rparr>
      in case sel of None \<Rightarrow> s1 | Some x \<Rightarrow> onSelect x s1)"

definition unmount :: "sys \<Rightarrow> sys" where
  "unmount s =
     (let (r, e) = lazy_unmount (lazy s, timers s) in s\<lparr>mounted := False, lazy := r, timers := e\<rparr>)"

text \<open>
  A settled request is well-formed for the search results \<open>srv\<close> of the server:
  a status-200 response to query \<open>t\<close> carries \<open>srv t\<close>; any other status, any
  headers and rejections are allowed.
\<close>

definition outcome_ok :: "(string \<Rightarrow> search_payload) \<Rightarrow> string \<Rightarrow> fetch_outcome \<Rightarrow> bool" where
  "outcome_ok srv t out \<longleftrightarrow>
     (case out of Rejected \<Rightarrow> True | Resolved resp p \<Rightarrow> status resp = 200 \<longrightarrow> p = srv t)"

text \<open>
  One step of the page: the user types, presses a key, leaves the field or clicks an
  option of the visible list (while mounted); a due timer fires; a request settles;
  time passes; the widget unmounts. Each event is followed by the render.
\<close>

inductive sys_step :: "(string \<Rightarrow> search_payload) \<Rightarrow> sys \<Rightarrow> sys \<Rightarrow> bool"
  for srv :: "string \<Rightarrow> search_payload" where
  type: "mounted s \<Longrightarrow> sys_step srv s (render (onChangeText t s))"
| key: "mounted s \<Longrightarrow> sys_step srv s (render (key_down k s))"
| leave: "mounted s \<Longrightarrow> sys_step srv s (render (blur s))"
| click: "mounted s \<Longrightarrow> list_visible (st s) \<Longrightarrow> i < length (items (st s)) \<Longrightarrow>
     sys_step srv s (render (onSelectProxy (items (st s) ! i) s))"
| timer: "timer_fire i (timers s) = Some (cb, e') \<Longrightarrow>
     sys_step srv s (render (run_timer cb (s\<lparr>timers := e'\<rparr>)))"
| settle: "(n, t) \<in> set (inflight s) \<Longrightarrow> outcome_ok srv t out \<Longrightarrow>
     sys_step srv s (render (onSearch_settle t out (s\<lparr>inflight := remove1 (n, t) (inflight s)\<rparr>)))"
| tick: "0 \<le> d \<Longrightarrow> sys_step srv s (s\<lparr>timers := advance d (timers s)\<rparr>)"
| unmounting: "mounted s \<Longrightarrow> sys_step srv s (unmount s)"

inductive reachable :: "(string \<Rightarrow> search_payload) \<Rightarrow> sys \<Rightarrow> bool"
  for srv :: "string \<Rightarrow> search_payload" where
  init: "reachable srv (sys_init t)"
| step: "reachable srv s \<Longrightarrow> sys_step srv s s' \<Longrightarrow> reachable srv s'"

text \<open>A 403 response with integer rate-limit headers, and a page 1 ms after a leading search for a, its rate limits unknown.\<close>

abbreviation resp403 :: response where
  "resp403 \<equiv> \<lparr>status = 403, headers = [''x-ratelimit-reset'' \<mapsto> ''100'', ''x-ratelimit-remaining'' \<mapsto> ''0'']\<rparr>"

abbreviation s_mid :: sys where
  "s_mid \<equiv> \<lparr>st = initialState\<lparr>search_text := ''a'', isPristine := False, rateLimitResetTime := NaN\<rparr>,
     cache = Map.empty, timers = \<lparr>clock = 1, pending = [(1, 2000, ThrottleExpired 0)], next_handle = 2\<rparr>,
     lazy = None, throttles = [(initialState, \<lparr>lastArgs = None, lastCallTime = Some 0, lastInvokeTime = 0, timerId = Some 1\<rparr>)],
     inflight = [(0, ''a'')], next_req = 1, mounted = True, highlightedIndex = - 1\<rparr>"

subsection \<open>The handlers, operation by operation\<close>

declare useCache_def [simp] onSelectProxy_def [simp]

lemma dispatch_fields [simp]:
  "cache (dispatch a s) = cache s" "timers (dispatch a s) = timers s" "lazy (dispatch a s) = lazy s"
  "throttles (dispatch a s) = throttles s" "inflight (dispatch a s) = inflight s"
  "next_req (dispatch a s) = next_req s" "mounted (dispatch a s) = mounted s"
  "highlightedIndex (dispatch a s) = highlightedIndex s"
  by (simp_all add: dispatch_def)

lemma st_dispatch [simp]: "mounted s \<Longrightarrow> st (dispatch a s) = autocompleteReducer (st s) a"
  by (simp add: dispatch_def)

lemma setDismissableError_fields [simp]:
  "cache (setDismissableError err ms s) = cache s"
  "throttles (setDismissableError err ms s) = throttles s"
  "inflight (setDismissableError err ms s) = inflight s"
  "next_req (setDismissableError err ms s) = next_req s"
  "mounted (setDismissableError err ms s) = mounted s"
  "highlightedIndex (setDismissableError err ms s) = highlightedIndex s"
  by (simp_all add: setDismissableError_def split_beta)

lemma handleRateLimit_fields [simp]:
  "cache (handleRateLimit resp s) = cache s"
  "throttles (handleRateLimit resp s) = throttles s"
  "inflight (handleRateLimit resp s) = inflight s"
  "next_req (handleRateLimit resp s) = next_req s"
  "mounted (handleRateLimit resp s) = mounted s"
  by (simp_all add: handleRateLimit_def Let_def)

lemma onSearch_fetch:
  assumes "t \<noteq> []" and "cache s t = None" and "\<not> rate_gate_closed snap (clock (timers s))"
  shows "onSearch snap t s = fetchIssues t s"
  using assms by (auto simp: onSearch_def rate_gate_closed_def Let_def)

text \<open>C1: onSearch sends a request exactly for a non-empty text that is not cached while the rate-limit gate of its closure is open.\<close>

theorem onSearch_requests:
  "inflight (onSearch snap t s) =
     (if t \<noteq> [] \<and> cache s t = None \<and> \<not> rate_gate_closed snap (clock (timers s))
      then inflight s @ [(next_req s, t)] else inflight s)"
  by (auto simp: onSearch_def fetchIssues_def rate_gate_closed_def Let_def split: option.splits)

text \<open>C2: a cached non-empty text sets the cached items and clears the error, without a request or a timer.\<close>

theorem onSearch_cache_hit:
  assumes "t \<noteq> []" and "cache s t = Some its" and "mounted s"
  shows "onSearch snap t s = s\<lparr>st := (st s)\<lparr>error := None, items := its\<rparr>\<rparr>"
  using assms by (simp add: onSearch_def dispatch_def)

text \<open>C13: the empty text clears the items and the error, without a request.\<close>

theorem onSearch_empty:
  assumes "mounted s"
  shows "onSearch snap [] s = s\<lparr>st := (st s)\<lparr>error := None, items := []\<rparr>\<rparr>"
  using assms by (simp add: onSearch_def dispatch_def)

lemma setDismissableError_st [simp]:
  "mounted s \<Longrightarrow> st (setDismissableError err ms s) = (st s)\<lparr>error := Some err\<rparr>"
  by (simp add: setDismissableError_def split_beta)

lemma setDismissableError_timers [simp]:
  "lazy (setDismissableError err ms s) = Some (next_handle (timers s))"
  "pending (timers (setDismissableError err ms s)) =
     pending (lazy_clear (lazy s) (timers s)) @ [(next_handle (timers s), clock (timers s) + timer_delay ms, DismissError)]"
  "next_handle (timers (setDismissableError err ms s)) = Suc (next_handle (timers s))"
  "clock (timers (setDismissableError err ms s)) = clock (timers s)"
  by (simp_all add: setDismissableError_def setLazyTimeout_def setTimeout_def split_beta Let_def)

lemma setDismissableError_timer:
  "lazy (setDismissableError err ms s) = Some (next_handle (timers s))
   \<and> (next_handle (timers s), clock (timers s) + timer_delay ms, DismissError)
       \<in> set (pending (timers (setDismissableError err ms s)))"
  by simp

text \<open>C8: with the gate of its closure closed, onSearch sends no request and, when its closure saw no error, shows the rate-limit error and schedules its dismissal for the reset time.\<close>

theorem onSearch_rate_limited:
  assumes "t \<noteq> []" and "cache s t = None" and gate: "rate_gate_closed snap (clock (timers s))"
    and "mounted s"
  shows "inflight (onSearch snap t s) = inflight s
       \<and> (error snap \<noteq> None \<longrightarrow> onSearch snap t s = s)
       \<and> (error snap = None \<longrightarrow>
            st (onSearch snap t s) = (st s)\<lparr>error := Some RATE_LIMIT_ERROR\<rparr>
          \<and> (\<exists>r. rateLimitResetTime snap = Num r
               \<and> (next_handle (timers s), clock (timers s) + timer_delay (Num (r - clock (timers s))),
                   DismissError) \<in> set (pending (timers (onSearch snap t s)))))"
proof -
  obtain r where r: "rateLimitResetTime snap = Num r"
    using gate by (cases "rateLimitResetTime snap") (auto simp: rate_gate_closed_def)
  have "js_gt (js_sub (rateLimitResetTime snap) (Num (clock (timers s)))) (Num 0) \<and> hasReachedMaxLimit snap"
    using gate by (simp add: rate_gate_closed_def)
  then show ?thesis
    using assms r setDismissableError_timer [of RATE_LIMIT_ERROR "Num (r - clock (timers s))" s]
    by (simp add: onSearch_def)
qed

lemma handleRateLimit_st:
  assumes "mounted s"
  shows "st (handleRateLimit resp s) =
     (let rl = getRateLimits resp (clock (timers s))
      in (st s)\<lparr>rateLimitResetTime := resetTimestamp rl,
                 hasReachedMaxLimit := js_eq (remaining rl) (Num 0),
                 error := if status resp = 403 then Some RATE_LIMIT_ERROR else error (st s)\<rparr>)"
  using assms by (simp add: handleRateLimit_def Let_def)

lemma handleRateLimit_not_403:
  "status resp \<noteq> 403 \<Longrightarrow> lazy (handleRateLimit resp s) = lazy s \<and> timers (handleRateLimit resp s) = timers s"
  by (simp add: handleRateLimit_def Let_def)

text \<open>C3: a 403 response records the rate limits, shows the rate-limit error until the reset time, and leaves items and cache alone.\<close>

theorem settle_rate_limited:
  assumes "status resp = 403" and "mounted s"
  shows "let rl = getRateLimits resp (clock (timers s)); s' = onSearch_settle t (Resolved resp p) s
     in error (st s') = Some RATE_LIMIT_ERROR \<and> items (st s') = items (st s) \<and> cache s' = cache s
      \<and> rateLimitResetTime (st s') = resetTimestamp rl
      \<and> hasReachedMaxLimit (st s') = js_eq (remaining rl) (Num 0)
      \<and> lazy s' = Some (next_handle (timers s))
      \<and> (next_handle (timers s), clock (timers s) + timer_delay (timeUntilReset rl), DismissError)
          \<in> set (pending (timers s'))"
  using assms by (simp add: onSearch_settle_def handleRateLimit_def Let_def)

text \<open>C5: a response with a status other than 200 and 403 shows the generic error, leaves items and cache alone and schedules no dismissal.\<close>

theorem settle_failed_status:
  assumes "status resp \<noteq> 200" and "status resp \<noteq> 403" and "mounted s"
  shows "let s' = onSearch_settle t (Resolved resp p) s
     in error (st s') = Some GENERIC_ERROR \<and> items (st s') = items (st s) \<and> cache s' = cache s
      \<and> lazy s' = lazy s \<and> timers s' = timers s"
  using assms handleRateLimit_not_403 [of resp s]
  by (simp add: onSearch_settle_def handleRateLimit_st Let_def)

text \<open>C6: a 200 response with a well-formed payload replaces the items, clears the error and caches the items under the query text of the request.\<close>

theorem settle_success:
  assumes "status resp = 200" and "formatIssues p = Inr its" and "mounted s"
  shows "let s' = onSearch_settle t (Resolved resp p) s
     in items (st s') = its \<and> error (st s') = None \<and> cache s' = (cache s)(t \<mapsto> its)"
  using assms by (simp add: onSearch_settle_def Let_def)

text \<open>A rejected request shows the generic error and changes nothing else.\<close>

theorem settle_rejected:
  assumes "mounted s"
  shows "onSearch_settle t Rejected s = s\<lparr>st := (st s)\<lparr>error := Some GENERIC_ERROR\<rparr>\<rparr>"
  using assms by (simp add: onSearch_settle_def dispatch_def)

theorem onSearch_cache_hit_witness:
  "onSearch initialState ''react'' ((sys_init 0)\<lparr>cache := [''react'' \<mapsto> []]\<rparr>)
     = (sys_init 0)\<lparr>cache := [''react'' \<mapsto> []], st := initialState\<lparr>error := None, items := []\<rparr>\<rparr>"
  using onSearch_cache_hit [of "''react''" "(sys_init 0)\<lparr>cache := [''react'' \<mapsto> []]\<rparr>" "[]" initialState]
  by (simp add: sys_init_def)

theorem onSearch_empty_witness:
  "onSearch initialState [] (sys_init 0) = (sys_init 0)\<lparr>st := initialState\<lparr>error := None, items := []\<rparr>\<rparr>"
  using onSearch_empty [of "sys_init 0" initialState] by (simp add: sys_init_def)

theorem onSearch_rate_limited_witness:
  "inflight (onSearch (initialState\<lparr>hasReachedMaxLimit := True, rateLimitResetTime := Num 5000\<rparr>) ''react'' (sys_init 0)) = []
   \<and> st (onSearch (initialState\<lparr>hasReachedMaxLimit := True, rateLimitResetTime := Num 5000\<rparr>) ''react'' (sys_init 0))
       = initialState\<lparr>error := Some RATE_LIMIT_ERROR\<rparr>"
proof -
  have "rate_gate_closed (initialState\<lparr>hasReachedMaxLimit := True, rateLimitResetTime := Num 5000\<rparr>)
      (clock (timers (sys_init 0)))"
    by (simp add: rate_gate_closed_def sys_init_def timers_init_def)
  then show ?thesis
    using onSearch_rate_limited [of "''react''" "sys_init 0"
        "initialState\<lparr>hasReachedMaxLimit := True, rateLimitResetTime := Num 5000\<rparr>"]
    by (simp add: sys_init_def initialState_def)
qed

theorem settle_rate_limited_witness:
  "error (st (onSearch_settle ''react'' (Resolved \<lparr>status = 403, headers = Map.empty\<rparr> \<lparr>raw_items = None\<rparr>) (sys_init 0)))
     = Some RATE_LIMIT_ERROR"
  using settle_rate_limited [of "\<lparr>status = 403, headers = Map.empty\<rparr>" "sys_init 0" "''react''" "\<lparr>raw_items = None\<rparr>"]
  by (simp add: sys_init_def Let_def)

theorem settle_failed_status_witness:
  "error (st (onSearch_settle ''react'' (Resolved \<lparr>status = 500, headers = Map.empty\<rparr> \<lparr>raw_items = None\<rparr>) (sys_init 0)))
     = Some GENERIC_ERROR"
  using settle_failed_status [of "\<lparr>status = 500, headers = Map.empty\<rparr>" "sys_init 0" "''react''" "\<lparr>raw_items = None\<rparr>"]
  by (simp add: sys_init_def Let_def)

theorem settle_success_witness:
  "cache (onSearch_settle ''react'' (Resolved \<lparr>status = 200, headers = Map.empty\<rparr> \<lparr>raw_items = Some []\<rparr>) (sys_init 0))
     = [''react'' \<mapsto> []]"
proof -
  have "formatIssues \<lparr>raw_items = Some []\<rparr> = Inr []" by (simp add: formatIssues_def)
  then show ?thesis
    using settle_success [of "\<lparr>status = 200, headers = Map.empty\<rparr>" "\<lparr>raw_items = Some []\<rparr>" "[]" "sys_init 0" "''react''"]
    by (simp add: sys_init_def Let_def)
qed

theorem settle_rejected_witness:
  "onSearch_settle ''react'' Rejected (sys_init 0) = (sys_init 0)\<lparr>st := initialState\<lparr>error := Some GENERIC_ERROR\<rparr>\<rparr>"
  using settle_rejected [of "sys_init 0" "''react''"] by (simp add: sys_init_def)

subsection \<open>Typing through the throttle, and the dismissal delay\<close>

lemma throttle_call_clock [simp]: "clock (snd (fst (throttle_call w cb x te))) = clock (snd te)"
  by (simp add: throttle_call_def setTimeout_def Let_def split_beta)

lemma throttle_timer_clock [simp]: "clock (snd (fst (throttle_timer w cb te))) = clock (snd te)"
  by (simp add: throttle_timer_def setTimeout_def Let_def split_beta split: option.splits)

lemma run_search_None [simp]: "run_search k None s = s"
  by (simp add: run_search_def)

lemma onSearchThrottled_eq:
  assumes "throttles s \<noteq> []"
  shows "onSearchThrottled t s =
     (let k = length (throttles s) - 1;
          r = throttle_call THROTTLE_WAIT (ThrottleExpired k) t (snd (throttles s ! k), timers s);
          s1 = s\<lparr>throttles := (throttles s)[k := (fst (throttles s ! k), fst (fst r))],
                 timers := snd (fst r)\<rparr>
      in case snd r of None \<Rightarrow> s1 | Some x \<Rightarrow> onSearch (fst (throttles s ! k)) x s1)"
proof -
  have "length (throttles s) - 1 < length (throttles s)" using assms by simp
  then show ?thesis by (simp add: onSearchThrottled_def run_search_def Let_def split_beta split: option.splits)
qed

text \<open>C14: a keystroke after a quiet 2000 ms window searches its text at once (leading edge): a request when the text is non-empty, uncached and the gate is open.\<close>

theorem onChangeText_leading:
  assumes ne: "throttles s \<noteq> []"
    and th: "throttles s ! (length (throttles s) - 1) = (snap, th)"
    and idle: "timerId th = None"
    and quiet: "lastCallTime th = None \<or> (\<exists>lc. lastCallTime th = Some lc \<and> THROTTLE_WAIT \<le> clock (timers s) - lc)"
    and "t \<noteq> []" and "cache s t = None" and "\<not> rate_gate_closed snap (clock (timers s))"
  shows "inflight (onChangeText t s) = inflight s @ [(next_req s, t)]"
proof -
  let ?k = "length (throttles s) - 1"
  let ?r = "throttle_call THROTTLE_WAIT (ThrottleExpired ?k) t (th, timers s)"
  have call: "snd ?r = Some t"
    using idle quiet by (rule throttle_call_quiet)
  have k: "?k < length (throttles s)" using ne by simp
  show ?thesis
    using call assms k
    by (simp add: onChangeText_def onSearchThrottled_eq onSearch_fetch fetchIssues_def Let_def)
qed

text \<open>C15: a keystroke inside the throttle window sends no request and becomes the pending trailing text.\<close>

theorem onChangeText_coalesced:
  assumes ne: "throttles s \<noteq> []"
    and th: "throttles s ! (length (throttles s) - 1) = (snap, th)"
    and busy: "timerId th \<noteq> None"
    and window: "\<not> shouldInvoke THROTTLE_WAIT th (clock (timers s))"
  shows "inflight (onChangeText t s) = inflight s
       \<and> lastArgs (snd (throttles (onChangeText t s) ! (length (throttles s) - 1))) = Some t"
proof -
  let ?k = "length (throttles s) - 1"
  have call: "throttle_call THROTTLE_WAIT (ThrottleExpired ?k) t (th, timers s)
      = ((th\<lparr>lastArgs := Some t, lastCallTime := Some (clock (timers s))\<rparr>, timers s), None)"
    using busy window by (rule throttle_call_coalesce)
  have k: "?k < length (throttles s)" using ne by simp
  show ?thesis
    using call th k ne by (simp add: onChangeText_def onSearchThrottled_eq Let_def)
qed

lemma run_timer_throttle_eq:
  assumes "k < length (throttles s)" and "throttles s ! k = (snap, th)"
  shows "run_timer (ThrottleExpired k) s =
     (let r = throttle_timer THROTTLE_WAIT (ThrottleExpired k) (th, timers s);
          s1 = s\<lparr>throttles := (throttles s)[k := (snap, fst (fst r))], timers := snd (fst r)\<rparr>
      in case snd r of None \<Rightarrow> s1 | Some x \<Rightarrow> onSearch snap x s1)"
  using assms by (simp add: run_timer_def run_search_def Let_def split_beta split: option.splits)

text \<open>When the throttle timer fires after the window, the latest pending text is searched.\<close>

theorem throttle_timer_searches_latest:
  assumes k: "k < length (throttles s)" and th: "throttles s ! k = (snap, th)"
    and due: "shouldInvoke THROTTLE_WAIT th (clock (timers s))" and last: "lastArgs th = Some t"
    and "t \<noteq> []" and "cache s t = None" and "\<not> rate_gate_closed snap (clock (timers s))"
  shows "inflight (run_timer (ThrottleExpired k) s) = inflight s @ [(next_req s, t)]"
proof -
  have "snd (throttle_timer THROTTLE_WAIT (ThrottleExpired k) (th, timers s)) = Some t"
    using due last by (rule throttle_timer_trailing)
  then show ?thesis
    using assms by (simp add: run_timer_throttle_eq onSearch_fetch fetchIssues_def Let_def)
qed

lemma render_fields [simp]:
  "st (render s) = st s" "cache (render s) = cache s" "timers (render s) = timers s"
  "lazy (render s) = lazy s" "inflight (render s) = inflight s" "next_req (render s) = next_req s"
  "mounted (render s) = mounted s" "highlightedIndex (render s) = highlightedIndex s"
  by (simp_all add: render_def)

lemma highlightedIndex_onSearch_settle [simp]:
  "highlightedIndex (onSearch_settle t out s) = highlightedIndex s"
  by (simp add: onSearch_settle_def handleRateLimit_def setDismissableError_def dispatch_def Let_def
      split_beta split: fetch_outcome.splits sum.splits)

lemma setDismissableError_fires:
  assumes wf: "timers_wf (timers s)" and due: "timer_delay ms \<le> d"
  shows "timer_fire (next_handle (timers s)) (advance d (timers (setDismissableError err ms s)))
       = Some (DismissError, clearTimeout (next_handle (timers s)) (advance d (timers (setDismissableError err ms s))))"
proof (rule timer_fire_last)
  show "next_handle (timers s) \<notin> fst ` set (pending (lazy_clear (lazy s) (timers s)))"
    using wf pending_lazy_clear_subset [of "lazy s" "timers s"] by (force simp: timers_wf_def)
qed (use due in \<open>simp_all add: advance_def\<close>)

lemma render_new_throttle:
  assumes "mounted s" and "deps_changed (fst (last (throttles s))) (st s)"
  shows "render s = s\<lparr>throttles := throttles s @ [(st s, throttle_init)]\<rparr>"
  using assms by (simp add: render_def)

text \<open>C4: after a 403 response the rate-limit error is shown, and once the time until reset has passed its dismissal timer fires and clears it.\<close>

theorem rate_limit_error_clears:
  assumes "mounted s" and "timers_wf (timers s)" and "status resp = 403"
    and "timer_delay (timeUntilReset (getRateLimits resp (clock (timers s)))) \<le> d"
  shows "let s' = onSearch_settle t (Resolved resp p) s
     in error (st s') = Some RATE_LIMIT_ERROR
      \<and> (\<exists>e'. timer_fire (next_handle (timers s)) (advance d (timers s')) = Some (DismissError, e')
             \<and> error (st (run_timer DismissError (s'\<lparr>timers := e'\<rparr>))) = None)"
proof -
  let ?rl = "getRateLimits resp (clock (timers s))"
  let ?s1 = "dispatch (updateRateLimits (resetTimestamp ?rl) (js_eq (remaining ?rl) (Num 0))) s"
  have s': "onSearch_settle t (Resolved resp p) s = setDismissableError RATE_LIMIT_ERROR (timeUntilReset ?rl) ?s1"
    using assms(3) by (simp add: onSearch_settle_def handleRateLimit_def Let_def)
  have "timers_wf (timers ?s1)" using assms(2) by simp
  from setDismissableError_fires [OF this assms(4), of RATE_LIMIT_ERROR]
  show ?thesis using assms(1) by (simp add: s' run_timer_def dispatch_def)
qed

text \<open>A successful response replaces the items but keeps highlightedIndex, whatever the new list length.\<close>

theorem settle_keeps_highlight:
  assumes "status resp = 200" and "formatIssues p = Inr its" and "mounted s"
  shows "let s' = render (onSearch_settle t (Resolved resp p) s)
     in items (st s') = its \<and> highlightedIndex s' = highlightedIndex s"
  using assms by (simp add: onSearch_settle_def handleRateLimit_def setDismissableError_def Let_def split_beta)

text \<open>C27: a 403 response that settles after unmount leaves the state alone but schedules a new dismissal timer, which nothing cancels.\<close>

theorem settle_after_unmount_schedules:
  assumes "\<not> mounted s" and "status resp = 403"
  shows "let s' = onSearch_settle t (Resolved resp p) s
     in st s' = st s \<and> \<not> mounted s' \<and> lazy s' = Some (next_handle (timers s))
      \<and> (next_handle (timers s), clock (timers s) + timer_delay (timeUntilReset (getRateLimits resp (clock (timers s)))),
          DismissError) \<in> set (pending (timers s'))"
  using assms by (simp add: onSearch_settle_def handleRateLimit_def setDismissableError_def dispatch_def
      setLazyTimeout_def setTimeout_def Let_def split_beta)

text \<open>C19: when the dependencies of onSearch change, the render builds a new throttle, and the next keystroke sends its request at once, whatever the window of the previous throttle.\<close>

theorem render_new_throttle_leading:
  assumes "mounted s" and "deps_changed (fst (last (throttles s))) (st s)"
    and "t \<noteq> []" and "cache s t = None" and "\<not> rate_gate_closed (st s) (clock (timers s))"
  shows "inflight (onChangeText t (render s)) = inflight s @ [(next_req s, t)]"
proof -
  let ?s = "render s"
  let ?k = "length (throttles ?s) - 1"
  have thr: "throttles ?s = throttles s @ [(st s, throttle_init)]"
    using assms(1,2) by (simp add: render_new_throttle)
  have k: "throttles ?s ! ?k = (st s, throttle_init)" by (simp add: thr nth_append)
  let ?s1 = "dispatch (changeText t) ?s"
  have thr1: "throttles ?s1 = throttles ?s" "timers ?s1 = timers s" "cache ?s1 = cache s"
    "inflight ?s1 = inflight s" "next_req ?s1 = next_req s"
    by (simp_all add: thr)
  have "snd (throttle_call THROTTLE_WAIT (ThrottleExpired ?k) t (throttle_init, timers s)) = Some t"
    by (rule throttle_call_quiet) (simp_all add: throttle_init_def)
  then show ?thesis
    using assms thr1 k
    by (simp add: onChangeText_def onSearchThrottled_eq onSearch_fetch fetchIssues_def Let_def thr)
qed

text \<open>A dismissal requested for n ms, 0 <= n < 2^31, is due exactly n ms later.\<close>

theorem dismissal_due_exactly:
  assumes "0 \<le> n" and "n < 2 ^ 31"
  shows "(next_handle (timers s), clock (timers s) + n, DismissError)
           \<in> set (pending (timers (setDismissableError err (Num n) s)))"
  using assms by (simp add: timer_delay_Num)

lemma settle_403_dismissal:
  assumes "status resp = 403" and "mounted s"
    and "headers resp ''x-ratelimit-reset'' = Some (int_string r)"
  shows "(next_handle (timers s), clock (timers s) + timer_delay (Num (r * 1000 - clock (timers s))), DismissError)
           \<in> set (pending (timers (onSearch_settle t (Resolved resp p) s)))"
  using assms by (simp add: onSearch_settle_def handleRateLimit_def getRateLimits_def Let_def header_num_int_string)

text \<open>C38: after a 403 response whose reset header holds the integer r, the dismissal of the rate-limit error is due exactly at the reset time r * 1000 while timeUntilReset lies in [0, 2^31) ms, and at once when it lies in [2^31, 2^32) ms, the delay wrapping around in setTimeout.\<close>

theorem rate_limit_dismissal_bounds:
  assumes "status resp = 403" and "mounted s"
    and "headers resp ''x-ratelimit-reset'' = Some (int_string r)"
  shows "let now = clock (timers s); d = r * 1000 - now;
             due = (\<lambda>x. (next_handle (timers s), x, DismissError)
                          \<in> set (pending (timers (onSearch_settle t (Resolved resp p) s))))
         in (0 \<le> d \<and> d < 2 ^ 31 \<longrightarrow> due (r * 1000))
          \<and> (2 ^ 31 \<le> d \<and> d < 2 ^ 32 \<longrightarrow> due now)"
  using settle_403_dismissal [OF assms, of t p]
  by (auto simp: Let_def timer_delay_Num timer_delay_wrap)


theorem onChangeText_leading_witness:
  "inflight (onChangeText ''react'' (sys_init 0)) = [(0, ''react'')]"
proof -
  have "\<not> rate_gate_closed initialState (clock (timers (sys_init 0)))"
    by (simp add: rate_gate_closed_def initialState_def)
  then show ?thesis
    using onChangeText_leading [of "sys_init 0" initialState throttle_init "''react''"]
    by (simp add: sys_init_def throttle_init_def)
qed

theorem onChangeText_coalesced_witness:
  "inflight (onChangeText ''react''
     ((sys_init 0)\<lparr>throttles := [(initialState, \<lparr>lastArgs = None, lastCallTime = Some 0, lastInvokeTime = 0, timerId = Some 1\<rparr>)],
                    timers := \<lparr>clock = 100, pending = [], next_handle = 2\<rparr>\<rparr>)) = []"
  using onChangeText_coalesced [of "(sys_init 0)\<lparr>throttles := [(initialState, \<lparr>lastArgs = None, lastCallTime = Some 0, lastInvokeTime = 0, timerId = Some 1\<rparr>)],
                    timers := \<lparr>clock = 100, pending = [], next_handle = 2\<rparr>\<rparr>" initialState
      "\<lparr>lastArgs = None, lastCallTime = Some 0, lastInvokeTime = 0, timerId = Some 1\<rparr>" "''react''"]
  by (simp add: sys_init_def shouldInvoke_def THROTTLE_WAIT_def)

theorem throttle_timer_searches_latest_witness:
  "inflight (run_timer (ThrottleExpired 0)
     ((sys_init 0)\<lparr>throttles := [(initialState, \<lparr>lastArgs = Some ''react'', lastCallTime = Some 0, lastInvokeTime = 0, timerId = Some 1\<rparr>)],
                    timers := \<lparr>clock = 2000, pending = [], next_handle = 2\<rparr>\<rparr>)) = [(0, ''react'')]"
proof -
  have "\<not> rate_gate_closed initialState 2000"
    by (simp add: rate_gate_closed_def initialState_def)
  then show ?thesis
    using throttle_timer_searches_latest [of 0 "(sys_init 0)\<lparr>throttles := [(initialState, \<lparr>lastArgs = Some ''react'', lastCallTime = Some 0, lastInvokeTime = 0, timerId = Some 1\<rparr>)],
                    timers := \<lparr>clock = 2000, pending = [], next_handle = 2\<rparr>\<rparr>" initialState
      "\<lparr>lastArgs = Some ''react'', lastCallTime = Some 0, lastInvokeTime = 0, timerId = Some 1\<rparr>" "''react''"]
    by (simp add: sys_init_def shouldInvoke_def THROTTLE_WAIT_def)
qed

theorem dismissal_due_exactly_witness:
  "(1, 20000, DismissError) \<in> set (pending (timers (setDismissableError RATE_LIMIT_ERROR (Num 20000) (sys_init 0))))"
  using dismissal_due_exactly [of 20000 "sys_init 0" RATE_LIMIT_ERROR]
  by (simp add: sys_init_def timers_init_def)

theorem rate_limit_error_clears_witness:
  "let s' = onSearch_settle ''react'' (Resolved resp403 \<lparr>raw_items = None\<rparr>) (sys_init 0)
   in error (st s') = Some RATE_LIMIT_ERROR
    \<and> (\<exists>e'. timer_fire 1 (advance 100000 (timers s')) = Some (DismissError, e')
           \<and> error (st (run_timer DismissError (s'\<lparr>timers := e'\<rparr>))) = None)"
proof -
  have i: "int_string 100 = ''100''" "int_string 0 = ''0''" by code_simp+
  have "timeUntilReset (getRateLimits resp403 0) = Num 100000"
    using header_num_int_string [of "headers resp403" "''x-ratelimit-reset''" 100]
    by (simp add: getRateLimits_def Let_def i)
  then have "timer_delay (timeUntilReset (getRateLimits resp403 (clock (timers (sys_init 0))))) \<le> 100000"
    by (simp add: timer_delay_Num sys_init_def timers_init_def)
  moreover have "timers_wf (timers (sys_init 0))" by (simp add: sys_init_def timers_wf_init)
  moreover have "mounted (sys_init 0)" by (simp add: sys_init_def)
  ultimately have "let s' = onSearch_settle ''react'' (Resolved resp403 \<lparr>raw_items = None\<rparr>) (sys_init 0)
   in error (st s') = Some RATE_LIMIT_ERROR
    \<and> (\<exists>e'. timer_fire (next_handle (timers (sys_init 0))) (advance 100000 (timers s')) = Some (DismissError, e')
           \<and> error (st (run_timer DismissError (s'\<lparr>timers := e'\<rparr>))) = None)"
    by (intro rate_limit_error_clears) simp_all
  then show ?thesis by (simp add: sys_init_def timers_init_def)
qed

theorem settle_keeps_highlight_witness:
  "let s' = render (onSearch_settle ''r'' (Resolved \<lparr>status = 200, headers = Map.empty\<rparr>
        \<lparr>raw_items = Some [\<lparr>raw_id = 7, raw_title = ''A'', raw_state = ''open'', raw_labels = Some []\<rparr>]\<rparr>)
        ((sys_init 0)\<lparr>highlightedIndex := 2\<rparr>))
   in items (st s') = [\<lparr>item_id = 7, title = ''A'', isOpen = True, labels = []\<rparr>]
    \<and> highlightedIndex s' = 2 \<and> \<not> highlight_ok (items (st s')) (highlightedIndex s')"
proof -
  have f: "formatIssues \<lparr>raw_items = Some [\<lparr>raw_id = 7, raw_title = ''A'', raw_state = ''open'', raw_labels = Some []\<rparr>]\<rparr>
      = Inr [\<lparr>item_id = 7, title = ''A'', isOpen = True, labels = []\<rparr>]"
    by (simp add: formatIssues_def format_issue_def)
  show ?thesis
    using settle_keeps_highlight [OF _ f, of "\<lparr>status = 200, headers = Map.empty\<rparr>" "(sys_init 0)\<lparr>highlightedIndex := 2\<rparr>" "''r''"]
    by (simp add: sys_init_def highlight_ok_def Let_def)
qed

theorem settle_after_unmount_schedules_witness:
  "let s' = onSearch_settle ''r'' (Resolved \<lparr>status = 403, headers = Map.empty\<rparr> \<lparr>raw_items = None\<rparr>)
              (unmount (sys_init 0))
   in \<not> mounted s' \<and> (1, 0, DismissError) \<in> set (pending (timers s'))"
proof -
  have "timeUntilReset (getRateLimits \<lparr>status = 403, headers = Map.empty\<rparr> 0) = NaN"
    by (simp add: getRateLimits_def Let_def header_num_missing)
  then show ?thesis
    using settle_after_unmount_schedules [of "unmount (sys_init 0)" "\<lparr>status = 403, headers = Map.empty\<rparr>" "''r''" "\<lparr>raw_items = None\<rparr>"]
    by (simp add: unmount_def lazy_unmount_def lazy_clear_def sys_init_def timers_init_def timer_delay_def Let_def)
qed

theorem render_new_throttle_leading_witness:
  "inflight (onChangeText ''ab'' (render s_mid)) = [(0, ''a''), (1, ''ab'')]"
  using render_new_throttle_leading [of s_mid "''ab''"]
  by (simp add: deps_changed_def rate_gate_closed_def initialState_def)

theorem rate_limit_dismissal_bounds_witness:
  "(1, 100000, DismissError) \<in> set (pending (timers (onSearch_settle ''react'' (Resolved resp403 \<lparr>raw_items = None\<rparr>) (sys_init 0))))
   \<and> (1, 0, DismissError) \<in> set (pending (timers (onSearch_settle ''react''
        (Resolved \<lparr>status = 403, headers = [''x-ratelimit-reset'' \<mapsto> ''2147484'']\<rparr> \<lparr>raw_items = None\<rparr>) (sys_init 0))))"
proof -
  have i: "int_string 100 = ''100''" "int_string 2147484 = ''2147484''"
    by (simp_all add: int_string_def dec_string.simps char_of_def bit_0)
  have a: "(1, 100000, DismissError) \<in> set (pending (timers (onSearch_settle ''react'' (Resolved resp403 \<lparr>raw_items = None\<rparr>) (sys_init 0))))"
    using rate_limit_dismissal_bounds [of resp403 "sys_init 0" 100 "''react''" "\<lparr>raw_items = None\<rparr>"]
    by (simp add: i sys_init_def timers_init_def Let_def)
  have b: "(1, 0, DismissError) \<in> set (pending (timers (onSearch_settle ''react''
        (Resolved \<lparr>status = 403, headers = [''x-ratelimit-reset'' \<mapsto> ''2147484'']\<rparr> \<lparr>raw_items = None\<rparr>) (sys_init 0))))"
    using rate_limit_dismissal_bounds [of "\<lparr>status = 403, headers = [''x-ratelimit-reset'' \<mapsto> ''2147484'']\<rparr>"
        "sys_init 0" 2147484 "''react''" "\<lparr>raw_items = None\<rparr>"]
    by (simp add: i sys_init_def timers_init_def Let_def)
  from a b show ?thesis ..
qed


end
