(* ===== verification/Page.thy ===== *)
theory Page
  imports Controller
begin

text \<open>
  Properties of the whole page: the controller of \<open>useAutocomplete.js\<close> together
  with \<open>Autocomplete.jsx\<close>, its timers and its requests, as the step relation
  \<open>Controller.sys_step\<close> and its reachable states. Two invariants of every reachable
  state: each cached result is the formatted server answer for its key
  (\<open>cache_sound\<close>), and at most one dismissal timer of \<open>useLazyTimeout\<close> is
  pending. The second one comes from the \<open>LazyTimeout\<close> theory through a
  simulation: every page step moves the page's \<open>(lazy, timers)\<close> pair by
  \<open>LazyTimeout.lazy_steps\<close> of the dismissal owner \<open>is_dismiss\<close>, so
  \<open>LazyTimeout.lazy_inv\<close> carries over.
\<close>

definition is_dismiss :: "tcb \<Rightarrow> bool" where
  "is_dismiss c \<longleftrightarrow> c = DismissError"

definition dsim :: "sys \<Rightarrow> sys \<Rightarrow> bool" where
  "dsim s s' \<longleftrightarrow> lazy_steps is_dismiss (lazy s, timers s) (lazy s', timers s')"

definition cache_sound :: "(string \<Rightarrow> search_payload) \<Rightarrow> sys \<Rightarrow> bool" where
  "cache_sound srv s \<longleftrightarrow> (\<forall>t its. cache s t = Some its \<longrightarrow> formatIssues (srv t) = Inr its)"

text \<open>A server that answers every query with an empty result list.\<close>

abbreviation srv_empty :: "string \<Rightarrow> search_payload" where
  "srv_empty \<equiv> \<lambda>_. \<lparr>raw_items = Some []\<rparr>"

lemma cache_fetchIssues [simp]: "cache (fetchIssues t s) = cache s"
  by (simp add: fetchIssues_def)

lemma cache_onSearch [simp]: "cache (onSearch snap t s) = cache s"
  by (simp add: onSearch_def Let_def split: option.splits)

lemma cache_run_search [simp]: "cache (run_search k c s) = cache s"
  by (simp add: run_search_def split: option.splits)

lemma cache_onChangeText [simp]: "cache (onChangeText t s) = cache s"
  by (simp add: onChangeText_def onSearchThrottled_def Let_def split_beta)

lemma cache_run_timer [simp]: "cache (run_timer cb s) = cache s"
  by (simp add: run_timer_def Let_def split_beta split: tcb.splits)

lemma cache_render [simp]: "cache (render s) = cache s"
  by (simp add: render_def)

lemma cache_onSelect [simp]: "cache (onSelect x s) = cache s"
  by (simp add: onSelect_def)

lemma cache_key_down [simp]: "cache (key_down k s) = cache s"
  by (simp add: key_down_def Let_def split_beta split: option.splits)

lemma cache_blur [simp]: "cache (blur s) = cache s"
  by (simp add: blur_def Let_def split_beta split: option.splits)

lemma cache_unmount [simp]: "cache (unmount s) = cache s"
  by (simp add: unmount_def split_beta)

lemma cache_onSearch_settle:
  "cache (onSearch_settle t out s) = cache s
   \<or> (\<exists>resp p its. out = Resolved resp p \<and> status resp = 200 \<and> formatIssues p = Inr its
        \<and> cache (onSearch_settle t out s) = (cache s)(t \<mapsto> its))"
  by (auto simp: onSearch_settle_def Let_def split: fetch_outcome.splits sum.splits)

lemma cache_sound_step: "sys_step srv s s' \<Longrightarrow> cache_sound srv s \<Longrightarrow> cache_sound srv s'"
proof (induction rule: sys_step.induct)
  case (settle n t s out)
  let ?s0 = "s\<lparr>inflight := remove1 (n, t) (inflight s)\<rparr>"
  from cache_onSearch_settle [of t out ?s0] show ?case
  proof
    assume "cache (onSearch_settle t out ?s0) = cache ?s0"
    with settle.prems show ?thesis by (simp add: cache_sound_def)
  next
    assume "\<exists>resp p its. out = Resolved resp p \<and> status resp = 200 \<and> formatIssues p = Inr its
        \<and> cache (onSearch_settle t out ?s0) = (cache ?s0)(t \<mapsto> its)"
    with settle.prems settle.hyps(2) show ?thesis
      by (auto simp: cache_sound_def outcome_ok_def split: if_splits)
  qed
qed (simp_all add: cache_sound_def)

lemma reachable_cache_sound_inv: "reachable srv s \<Longrightarrow> cache_sound srv s"
proof (induction rule: reachable.induct)
  case (init t)
  then show ?case by (simp add: cache_sound_def sys_init_def)
next
  case (step s s')
  from step.hyps(2) step.IH show ?case by (rule cache_sound_step)
qed

text \<open>C11: in every reachable page state, each cached result list is the formatted answer of the server for its key.\<close>

theorem reachable_cache_sound:
  assumes "reachable srv s" and "cache s t = Some its"
  shows "formatIssues (srv t) = Inr its"
  using reachable_cache_sound_inv [OF assms(1)] assms(2) by (simp add: cache_sound_def)

lemma run1_inflight: "inflight (render (onChangeText ''r'' (sys_init 0))) = [(0, ''r'')]"
  by (simp add: render_def onChangeText_def onSearchThrottled_def run_search_def throttle_call_def
      shouldInvoke_def sys_init_def onSearch_def dispatch_def fetchIssues_def initialState_def
      throttle_init_def setTimeout_def Let_def rate_gate_closed_def deps_changed_def)

theorem reachable_cache_sound_witness:
  "reachable srv_empty (render (onSearch_settle ''r''
      (Resolved \<lparr>status = 200, headers = Map.empty\<rparr> \<lparr>raw_items = Some []\<rparr>)
      ((render (onChangeText ''r'' (sys_init 0)))\<lparr>inflight := []\<rparr>)))
   \<and> cache (render (onSearch_settle ''r''
      (Resolved \<lparr>status = 200, headers = Map.empty\<rparr> \<lparr>raw_items = Some []\<rparr>)
      ((render (onChangeText ''r'' (sys_init 0)))\<lparr>inflight := []\<rparr>))) ''r'' = Some []
   \<and> formatIssues (srv_empty ''r'') = Inr []"
proof -
  let ?s1 = "render (onChangeText ''r'' (sys_init 0))"
  let ?out = "Resolved \<lparr>status = 200, headers = Map.empty\<rparr> \<lparr>raw_items = Some []\<rparr>"
  let ?s2 = "render (onSearch_settle ''r'' ?out (?s1\<lparr>inflight := []\<rparr>))"
  have r1: "reachable srv_empty ?s1"
    by (rule reachable.step [OF reachable.init sys_step.type]) (simp add: sys_init_def)
  have "sys_step srv_empty ?s1 (render (onSearch_settle ''r'' ?out (?s1\<lparr>inflight := remove1 (0, ''r'') (inflight ?s1)\<rparr>)))"
    by (rule sys_step.settle) (simp_all add: run1_inflight [simplified] outcome_ok_def)
  then have "sys_step srv_empty ?s1 ?s2" by (simp only: run1_inflight remove1.simps simp_thms if_True)
  with r1 have r2: "reachable srv_empty ?s2" by (rule reachable.step)
  have c: "cache ?s2 ''r'' = Some []"
    by (simp add: onSearch_settle_def formatIssues_def Let_def)
  have "formatIssues (srv_empty ''r'') = Inr []"
    using r2 c by (rule reachable_cache_sound)
  with r2 c show ?thesis by blast
qed

lemma lazy_steps_trans:
  "lazy_steps own a b \<Longrightarrow> lazy_steps own b c \<Longrightarrow> lazy_steps own a c"
  by (induction rule: lazy_steps.induct) (auto intro: lazy_steps.step)

lemma lazy_steps_one: "lazy_step own a b \<Longrightarrow> lazy_steps own a b"
  by (rule lazy_steps.step [OF _ lazy_steps.refl])

lemma dsim_same: "lazy s' = lazy s \<Longrightarrow> timers s' = timers s \<Longrightarrow> dsim s s'"
  by (simp add: dsim_def lazy_steps.refl)

lemma dsim_trans: "dsim a b \<Longrightarrow> dsim b c \<Longrightarrow> dsim a c"
  unfolding dsim_def by (rule lazy_steps_trans)

lemma dsim_dispatch: "dsim s (dispatch a s)"
  by (simp add: dsim_same)

lemma dsim_setDismissableError: "dsim s (setDismissableError err ms s)"
proof -
  have "(lazy (setDismissableError err ms s), timers (setDismissableError err ms s))
      = setLazyTimeout DismissError ms (lazy s, timers s)"
    by (simp add: setDismissableError_def split_beta)
  moreover have "lazy_step is_dismiss (lazy s, timers s) (setLazyTimeout DismissError ms (lazy s, timers s))"
    by (rule lazy_step.schedule) (simp add: is_dismiss_def)
  ultimately show ?thesis by (simp add: dsim_def lazy_steps_one)
qed

lemma dsim_onSearch: "dsim s (onSearch snap t s)"
  by (auto simp: onSearch_def Let_def fetchIssues_def dsim_same dsim_setDismissableError
      split: option.splits)

lemma dsim_handleRateLimit: "dsim s (handleRateLimit resp s)"
proof -
  let ?s1 = "dispatch (updateRateLimits (resetTimestamp (getRateLimits resp (clock (timers s))))
      (js_eq (remaining (getRateLimits resp (clock (timers s)))) (Num 0))) s"
  have "dsim s ?s1" by (rule dsim_dispatch)
  moreover have "dsim ?s1 (setDismissableError RATE_LIMIT_ERROR ms ?s1)" for ms
    by (rule dsim_setDismissableError)
  ultimately show ?thesis
    by (auto simp: handleRateLimit_def Let_def intro: dsim_trans)
qed

lemma dsim_onSearch_settle: "dsim s (onSearch_settle t out s)"
proof (cases out)
  case Rejected
  then show ?thesis by (simp add: onSearch_settle_def dsim_dispatch)
next
  case (Resolved resp p)
  have h: "dsim s (handleRateLimit resp s)" by (rule dsim_handleRateLimit)
  have "dsim (handleRateLimit resp s) (dispatch a (handleRateLimit resp s))" for a
    by (rule dsim_dispatch)
  moreover have "dsim (handleRateLimit resp s) (dispatch a ((handleRateLimit resp s)\<lparr>cache := c\<rparr>))" for a c
    by (simp add: dsim_same)
  ultimately show ?thesis using Resolved h
    by (auto simp: onSearch_settle_def Let_def intro: dsim_trans split: sum.splits)
qed

lemma lazy_steps_throttle_call:
  assumes "\<not> own cb"
  shows "lazy_steps own (r, e) (r, snd (fst (throttle_call w cb x (th, e))))"
proof -
  have set: "lazy_steps own (r, e') (r, snd (setTimeout cb ms e'))" for e' ms
    using assms by (intro lazy_steps_one lazy_step.other_set)
  have clr: "lazy_steps own (r, e') (r, clearTimeout i e')" for e' i
    by (intro lazy_steps_one lazy_step.other_clear)
  show ?thesis
    by (auto simp: throttle_call_def Let_def split_beta
        intro: set lazy_steps.refl lazy_steps_trans [OF clr set])
qed

lemma lazy_steps_throttle_timer:
  assumes "\<not> own cb"
  shows "lazy_steps own (r, e) (r, snd (fst (throttle_timer w cb (th, e))))"
proof -
  have set: "lazy_steps own (r, e') (r, snd (setTimeout cb ms e'))" for e' ms
    using assms by (intro lazy_steps_one lazy_step.other_set)
  show ?thesis
    by (auto simp: throttle_timer_def Let_def split_beta intro: set lazy_steps.refl
        split: option.splits)
qed

lemma dsim_throttle_update:
  "lazy_steps is_dismiss (lazy s, timers s) (lazy s, e') \<Longrightarrow> dsim s (s\<lparr>throttles := x, timers := e'\<rparr>)"
  by (simp add: dsim_def)

lemma dsim_run_search: "dsim s (run_search k c s)"
  by (simp add: run_search_def dsim_same dsim_onSearch split: option.splits)

lemma dsim_onSearchThrottled: "dsim s (onSearchThrottled t s)"
proof -
  let ?k = "length (throttles s) - 1"
  let ?r = "throttle_call THROTTLE_WAIT (ThrottleExpired ?k) t (snd (throttles s ! ?k), timers s)"
  let ?s1 = "s\<lparr>throttles := (throttles s)[?k := (fst (throttles s ! ?k), fst (fst ?r))], timers := snd (fst ?r)\<rparr>"
  have "dsim s ?s1"
    by (rule dsim_throttle_update, rule lazy_steps_throttle_call) (simp add: is_dismiss_def)
  moreover have "dsim ?s1 (run_search ?k (snd ?r) ?s1)" by (rule dsim_run_search)
  ultimately have "dsim s (run_search ?k (snd ?r) ?s1)" by (rule dsim_trans)
  then show ?thesis by (simp add: onSearchThrottled_def Let_def split_beta)
qed

lemma dsim_onChangeText: "dsim s (onChangeText t s)"
  unfolding onChangeText_def by (rule dsim_trans [OF dsim_dispatch dsim_onSearchThrottled])

lemma dsim_run_timer: "dsim s (run_timer cb s)"
proof (cases cb)
  case DismissError
  then show ?thesis by (simp add: run_timer_def dsim_dispatch)
next
  case (ThrottleExpired k)
  let ?r = "throttle_timer THROTTLE_WAIT (ThrottleExpired k) (snd (throttles s ! k), timers s)"
  let ?s1 = "s\<lparr>throttles := (throttles s)[k := (fst (throttles s ! k), fst (fst ?r))], timers := snd (fst ?r)\<rparr>"
  have "dsim s ?s1"
    by (rule dsim_throttle_update, rule lazy_steps_throttle_timer) (simp add: is_dismiss_def)
  moreover have "dsim ?s1 (run_search k (snd ?r) ?s1)" by (rule dsim_run_search)
  ultimately have "dsim s (run_search k (snd ?r) ?s1)" by (rule dsim_trans)
  with ThrottleExpired show ?thesis
    by (auto simp: run_timer_def Let_def split_beta dsim_same)
qed

lemma dsim_render: "dsim s (render s)"
  by (simp add: render_def dsim_same)

lemma dsim_key_down: "dsim s (key_down k s)"
  by (simp add: key_down_def onSelect_def Let_def split_beta dsim_same split: option.splits)

lemma dsim_blur: "dsim s (blur s)"
  by (simp add: blur_def onSelect_def Let_def split_beta dsim_same split: option.splits)

lemma dsim_onSelect: "dsim s (onSelect x s)"
  by (simp add: onSelect_def dsim_same)

lemma dsim_unmount: "dsim s (unmount s)"
proof -
  have "lazy_step is_dismiss (lazy s, timers s) (lazy_unmount (lazy s, timers s))"
    by (rule lazy_step.unmount)
  then show ?thesis by (simp add: dsim_def unmount_def lazy_unmount_def lazy_steps_one)
qed

lemma sys_step_dsim: "sys_step srv s s' \<Longrightarrow> dsim s s'"
proof (induction rule: sys_step.induct)
  case (type s t)
  show ?case by (rule dsim_trans [OF dsim_onChangeText dsim_render])
next
  case (key s k)
  show ?case by (rule dsim_trans [OF dsim_key_down dsim_render])
next
  case (leave s)
  show ?case by (rule dsim_trans [OF dsim_blur dsim_render])
next
  case (click s i)
  show ?case unfolding onSelectProxy_def by (rule dsim_trans [OF dsim_onSelect dsim_render])
next
  case (timer i s cb e')
  have "lazy_step is_dismiss (lazy s, timers s) (lazy s, e')"
    using timer.hyps by (rule lazy_step.fire)
  then have "dsim s (s\<lparr>timers := e'\<rparr>)" by (simp add: dsim_def lazy_steps_one)
  then show ?case by (rule dsim_trans [OF _ dsim_trans [OF dsim_run_timer dsim_render]])
next
  case (settle n t s out)
  have "dsim s (s\<lparr>inflight := remove1 (n, t) (inflight s)\<rparr>)" by (simp add: dsim_same)
  then show ?case by (rule dsim_trans [OF _ dsim_trans [OF dsim_onSearch_settle dsim_render]])
next
  case (tick d s)
  then have "lazy_step is_dismiss (lazy s, timers s) (lazy s, advance d (timers s))"
    by (rule lazy_step.tick)
  then show ?case by (simp add: dsim_def lazy_steps_one)
next
  case (unmounting s)
  show ?case by (rule dsim_unmount)
qed

lemma reachable_lazy_inv: "reachable srv s \<Longrightarrow> lazy_inv is_dismiss (lazy s, timers s)"
proof (induction rule: reachable.induct)
  case (init t)
  then show ?case by (simp add: lazy_inv_def sys_init_def timers_wf_init) (simp add: timers_init_def)
next
  case (step s s')
  from step.hyps(2) have "dsim s s'" by (rule sys_step_dsim)
  with step.IH show ?case unfolding dsim_def by (rule lazy_steps_inv [rotated])
qed

text \<open>C25: in every reachable page state at most one dismissal timer of the lazy timeout is pending.\<close>

theorem reachable_one_dismissal:
  assumes "reachable srv s"
  shows "length (owned_pending is_dismiss (timers s)) \<le> 1"
  using reachable_lazy_inv [OF assms] by (rule lazy_inv_owned_pending)

theorem reachable_one_dismissal_witness:
  "reachable srv_empty (sys_init 0) \<and> length (owned_pending is_dismiss (timers (sys_init 0))) \<le> 1"
proof -
  have r: "reachable srv_empty (sys_init 0)" by (rule reachable.init)
  then have "length (owned_pending is_dismiss (timers (sys_init 0))) \<le> 1"
    by (rule reachable_one_dismissal)
  with r show ?thesis by blast
qed

end
