(* ===== verification/Runs.thy ===== *)
theory Runs
  imports Page
begin

text \<open>
  Concrete runs of the page's step relation \<open>Controller.sys_step\<close> from its
  initial state, each step a user action, a timer, a settled request or the passing
  of time. They show two behaviours of the composition of \<open>lodash/throttle\<close>,
  the request cache and the reducer: two requests leave 1 ms apart although the
  search is throttled to one per 2000 ms, and a response to an older query that
  settles last overwrites the list shown for the current text; and the throttle,
  which unmount does not cancel, sends a request after the widget is gone.
\<close>

abbreviation typed :: "string \<Rightarrow> search_state" where
  "typed t \<equiv> initialState\<lparr>search_text := t, isPristine := False\<rparr>"

abbreviation page :: "string \<Rightarrow> int \<Rightarrow> (nat \<times> timestamp \<times> tcb) list \<Rightarrow> nat \<Rightarrow> string throttle
    \<Rightarrow> (nat \<times> string) list \<Rightarrow> sys" where
  "page t c p n th fl \<equiv> \<lparr>st = typed t, cache = Map.empty, timers = \<lparr>clock = c, pending = p, next_handle = n\<rparr>,
      lazy = None, throttles = [(initialState, th)], inflight = fl, next_req = length fl,
      mounted = True, highlightedIndex = - 1\<rparr>"

abbreviation itemA :: item where
  "itemA \<equiv> \<lparr>item_id = 7, title = ''A'', isOpen = True, labels = []\<rparr>"

abbreviation srv_race :: "string \<Rightarrow> search_payload" where
  "srv_race \<equiv> \<lambda>t. if t = ''a''
      then \<lparr>raw_items = Some [\<lparr>raw_id = 7, raw_title = ''A'', raw_state = ''open'', raw_labels = Some []\<rparr>]\<rparr>
      else \<lparr>raw_items = Some []\<rparr>"

abbreviation ok200 :: response where
  "ok200 \<equiv> \<lparr>status = 200, headers = Map.empty\<rparr>"

abbreviation st_race :: search_state where
  "st_race \<equiv> (typed ''ab'')\<lparr>rateLimitResetTime := NaN, items := []\<rparr>"

abbreviation payloadA :: search_payload where
  "payloadA \<equiv> \<lparr>raw_items = Some [\<lparr>raw_id = 7, raw_title = ''A'', raw_state = ''open'', raw_labels = Some []\<rparr>]\<rparr>"

abbreviation race3 :: sys where
  "race3 \<equiv> \<lparr>st = st_race, cache = [''ab'' \<mapsto> []],
    timers = \<lparr>clock = 2000, pending = [(2, 4000, ThrottleExpired 0)], next_handle = 3\<rparr>, lazy = None,
    throttles = [(initialState, \<lparr>lastArgs = None, lastCallTime = Some 2000, lastInvokeTime = 2000, timerId = Some 2\<rparr>),
                 (st_race, throttle_init)],
    inflight = [(0, ''a'')], next_req = 2, mounted = True, highlightedIndex = - 1\<rparr>"

lemmas run_defs = render_def onChangeText_def onSearchThrottled_def run_search_def throttle_call_def
  throttle_timer_def shouldInvoke_def sys_init_def onSearch_def dispatch_def
  fetchIssues_def initialState_def throttle_init_def setTimeout_def Let_def rate_gate_closed_def
  deps_changed_def THROTTLE_WAIT_def timers_init_def advance_def run_timer_def

text \<open>The first keystroke on a fresh page is a leading call: it requests its text at once.\<close>

lemma type_fresh_page:
  assumes "t \<noteq> []"
  shows "render (onChangeText t (sys_init 0)) =
   page t 0 [(1, 2000, ThrottleExpired 0)] 2
     \<lparr>lastArgs = None, lastCallTime = Some 0, lastInvokeTime = 0, timerId = Some 1\<rparr> [(0, t)]"
  using assms by (simp add: run_defs delay_2000)

lemma fresh_run_reachable:
  assumes "t \<noteq> []"
  shows "reachable srv (render (onSearch_settle t (Resolved ok200 (srv t))
           ((render (onChangeText t (sys_init 0)))\<lparr>inflight := []\<rparr>)))"
proof -
  let ?s1 = "render (onChangeText t (sys_init 0))"
  have s1: "?s1 = page t 0 [(1, 2000, ThrottleExpired 0)] 2
     \<lparr>lastArgs = None, lastCallTime = Some 0, lastInvokeTime = 0, timerId = Some 1\<rparr> [(0, t)]"
    using assms by (rule type_fresh_page)
  have r1: "reachable srv ?s1"
    by (rule reachable.step [OF reachable.init sys_step.type]) (simp add: sys_init_def)
  have "sys_step srv ?s1 (render (onSearch_settle t (Resolved ok200 (srv t)) (?s1\<lparr>inflight := []\<rparr>)))"
    using sys_step.settle [of 0 t ?s1 srv "Resolved ok200 (srv t)"] by (simp add: s1 outcome_ok_def)
  with r1 show ?thesis by (rule reachable.step)
qed

lemma run_s1: "render (onChangeText ''a'' (sys_init 0)) =
   page ''a'' 0 [(1, 2000, ThrottleExpired 0)] 2
     \<lparr>lastArgs = None, lastCallTime = Some 0, lastInvokeTime = 0, timerId = Some 1\<rparr> [(0, ''a'')]"
  by (rule type_fresh_page) simp

lemma run_s2: "render (onChangeText ''ab'' (page ''a'' 1 [(1, 2000, ThrottleExpired 0)] 2
     \<lparr>lastArgs = None, lastCallTime = Some 0, lastInvokeTime = 0, timerId = Some 1\<rparr> [(0, ''a'')])) =
   page ''ab'' 1 [(1, 2000, ThrottleExpired 0)] 2
     \<lparr>lastArgs = Some ''ab'', lastCallTime = Some 1, lastInvokeTime = 0, timerId = Some 1\<rparr> [(0, ''a'')]"
  by (simp add: run_defs)

lemma run_s4: "render (run_timer (ThrottleExpired 0) (page ''ab'' 2000 [] 2
     \<lparr>lastArgs = Some ''ab'', lastCallTime = Some 1, lastInvokeTime = 0, timerId = Some 1\<rparr> [(0, ''a'')])) =
   page ''ab'' 2000 [] 2
     \<lparr>lastArgs = None, lastCallTime = Some 1, lastInvokeTime = 2000, timerId = None\<rparr> [(0, ''a''), (1, ''ab'')]"
  by (simp add: run_defs)

lemma run_s6: "render (onChangeText ''abc'' (page ''ab'' 2001 [] 2
     \<lparr>lastArgs = None, lastCallTime = Some 1, lastInvokeTime = 2000, timerId = None\<rparr> [(0, ''a''), (1, ''ab'')])) =
   page ''abc'' 2001 [(2, 4001, ThrottleExpired 0)] 3
     \<lparr>lastArgs = None, lastCallTime = Some 2001, lastInvokeTime = 2001, timerId = Some 2\<rparr>
     [(0, ''a''), (1, ''ab''), (2, ''abc'')]"
  by (simp add: run_defs delay_2000)

text \<open>C18: typing a, ab at 1 ms and abc at 2001 ms sends requests for ab at 2000 ms (the trailing edge) and for abc at 2001 ms (a new leading edge), 1 ms apart.\<close>

theorem two_requests_1ms_apart:
  "\<exists>s3 s4 s5 s6. reachable srv s3 \<and> sys_step srv s3 s4 \<and> sys_step srv s4 s5 \<and> sys_step srv s5 s6
     \<and> clock (timers s4) = 2000 \<and> clock (timers s6) = 2001
     \<and> map snd (inflight s3) = [''a''] \<and> map snd (inflight s4) = [''a'', ''ab'']
     \<and> map snd (inflight s6) = [''a'', ''ab'', ''abc'']"
proof -
  let ?th1 = "\<lparr>lastArgs = None, lastCallTime = Some 0, lastInvokeTime = 0, timerId = Some 1\<rparr> :: string throttle"
  let ?th2 = "\<lparr>lastArgs = Some ''ab'', lastCallTime = Some 1, lastInvokeTime = 0, timerId = Some 1\<rparr> :: string throttle"
  let ?th4 = "\<lparr>lastArgs = None, lastCallTime = Some 1, lastInvokeTime = 2000, timerId = None\<rparr> :: string throttle"
  let ?p = "[(1, 2000, ThrottleExpired 0)]"
  have a1: "sys_step srv (sys_init 0) (page ''a'' 0 ?p 2 ?th1 [(0, ''a'')])"
    using sys_step.type [of "sys_init 0" srv "''a''"] run_s1 by (simp add: sys_init_def)
  have a2: "sys_step srv (page ''a'' 0 ?p 2 ?th1 [(0, ''a'')]) (page ''a'' 1 ?p 2 ?th1 [(0, ''a'')])"
    using sys_step.tick [of 1 srv "page ''a'' 0 ?p 2 ?th1 [(0, ''a'')]"] by (simp add: advance_def)
  have a3: "sys_step srv (page ''a'' 1 ?p 2 ?th1 [(0, ''a'')]) (page ''ab'' 1 ?p 2 ?th2 [(0, ''a'')])"
    using sys_step.type [of "page ''a'' 1 ?p 2 ?th1 [(0, ''a'')]" srv "''ab''"] run_s2 by simp
  have a4: "sys_step srv (page ''ab'' 1 ?p 2 ?th2 [(0, ''a'')]) (page ''ab'' 2000 ?p 2 ?th2 [(0, ''a'')])"
    using sys_step.tick [of 1999 srv "page ''ab'' 1 ?p 2 ?th2 [(0, ''a'')]"] by (simp add: advance_def)
  have fire: "timer_fire 1 (timers (page ''ab'' 2000 ?p 2 ?th2 [(0, ''a'')]))
      = Some (ThrottleExpired 0, \<lparr>clock = 2000, pending = [], next_handle = 2\<rparr>)"
    by (simp add: timer_fire_def)
  have a5: "sys_step srv (page ''ab'' 2000 ?p 2 ?th2 [(0, ''a'')]) (page ''ab'' 2000 [] 2 ?th4 [(0, ''a''), (1, ''ab'')])"
    using sys_step.timer [OF fire, of srv] run_s4 by simp
  have a6: "sys_step srv (page ''ab'' 2000 [] 2 ?th4 [(0, ''a''), (1, ''ab'')]) (page ''ab'' 2001 [] 2 ?th4 [(0, ''a''), (1, ''ab'')])"
    using sys_step.tick [of 1 srv "page ''ab'' 2000 [] 2 ?th4 [(0, ''a''), (1, ''ab'')]"] by (simp add: advance_def)
  have a7: "sys_step srv (page ''ab'' 2001 [] 2 ?th4 [(0, ''a''), (1, ''ab'')])
      (page ''abc'' 2001 [(2, 4001, ThrottleExpired 0)] 3
        \<lparr>lastArgs = None, lastCallTime = Some 2001, lastInvokeTime = 2001, timerId = Some 2\<rparr>
        [(0, ''a''), (1, ''ab''), (2, ''abc'')])"
    using sys_step.type [of "page ''ab'' 2001 [] 2 ?th4 [(0, ''a''), (1, ''ab'')]" srv "''abc''"] run_s6 by simp
  have r: "reachable srv (page ''ab'' 2000 ?p 2 ?th2 [(0, ''a'')])"
    by (rule reachable.step [OF reachable.step [OF reachable.step [OF reachable.step
          [OF reachable.init a1] a2] a3] a4])
  show ?thesis using r a5 a6 a7 by fastforce
qed

lemma race_s2: "render (onChangeText ''ab'' (page ''a'' 2000 [(1, 2000, ThrottleExpired 0)] 2
     \<lparr>lastArgs = None, lastCallTime = Some 0, lastInvokeTime = 0, timerId = Some 1\<rparr> [(0, ''a'')])) =
   page ''ab'' 2000 [(2, 4000, ThrottleExpired 0)] 3
     \<lparr>lastArgs = None, lastCallTime = Some 2000, lastInvokeTime = 2000, timerId = Some 2\<rparr>
     [(0, ''a''), (1, ''ab'')]"
  by (simp add: run_defs delay_2000 clearTimeout_def)

lemma race_s3: "render (onSearch_settle ''ab'' (Resolved ok200 (srv_race ''ab''))
     ((page ''ab'' 2000 [(2, 4000, ThrottleExpired 0)] 3
     \<lparr>lastArgs = None, lastCallTime = Some 2000, lastInvokeTime = 2000, timerId = Some 2\<rparr>
     [(0, ''a''), (1, ''ab'')])\<lparr>inflight := [(0, ''a'')]\<rparr>)) =
   \<lparr>st = st_race, cache = [''ab'' \<mapsto> []],
    timers = \<lparr>clock = 2000, pending = [(2, 4000, ThrottleExpired 0)], next_handle = 3\<rparr>, lazy = None,
    throttles = [(initialState, \<lparr>lastArgs = None, lastCallTime = Some 2000, lastInvokeTime = 2000, timerId = Some 2\<rparr>),
                 (st_race, throttle_init)],
    inflight = [(0, ''a'')], next_req = 2, mounted = True, highlightedIndex = - 1\<rparr>"
  by (simp add: run_defs onSearch_settle_def handleRateLimit_def getRateLimits_def header_num_def
      js_parseInt_def js_whitespace_def is_digit_def formatIssues_def)

lemma race_s4: "render (onSearch_settle ''a'' (Resolved ok200 payloadA)
    (race3\<lparr>inflight := remove1 (0, ''a'') (inflight race3)\<rparr>)) =
   race3\<lparr>st := st_race\<lparr>items := [itemA]\<rparr>, cache := [''ab'' \<mapsto> [], ''a'' \<mapsto> [itemA]], inflight := []\<rparr>"
proof -
  have f: "formatIssues payloadA = Inr [itemA]"
    by (simp add: formatIssues_def format_issue_def)
  have h: "header_num Map.empty k = NaN" for k
    by (simp add: header_num_def js_parseInt_def js_whitespace_def is_digit_def)
  show ?thesis
    by (simp add: f h render_def onSearch_settle_def handleRateLimit_def getRateLimits_def
        dispatch_def Let_def deps_changed_def initialState_def)
qed

text \<open>C20: when the response for a older query a settles after the one for the current text ab, the page shows the results of a under the text ab.\<close>

theorem stale_response_overwrites:
  "\<exists>s. reachable srv_race s \<and> search_text (st s) = ''ab'' \<and> cache s ''ab'' = Some []
       \<and> items (st s) = [itemA] \<and> list_visible (st s)"
proof -
  let ?th1 = "\<lparr>lastArgs = None, lastCallTime = Some 0, lastInvokeTime = 0, timerId = Some 1\<rparr> :: string throttle"
  let ?th2 = "\<lparr>lastArgs = None, lastCallTime = Some 2000, lastInvokeTime = 2000, timerId = Some 2\<rparr> :: string throttle"
  let ?s1 = "page ''a'' 0 [(1, 2000, ThrottleExpired 0)] 2 ?th1 [(0, ''a'')]"
  let ?s1' = "page ''a'' 2000 [(1, 2000, ThrottleExpired 0)] 2 ?th1 [(0, ''a'')]"
  let ?s2 = "page ''ab'' 2000 [(2, 4000, ThrottleExpired 0)] 3 ?th2 [(0, ''a''), (1, ''ab'')]"
  let ?s4 = "race3\<lparr>st := st_race\<lparr>items := [itemA]\<rparr>, cache := [''ab'' \<mapsto> [], ''a'' \<mapsto> [itemA]], inflight := []\<rparr>"
  have a1: "sys_step srv_race (sys_init 0) ?s1"
    using sys_step.type [of "sys_init 0" srv_race "''a''"] run_s1 by (simp add: sys_init_def)
  have a2: "sys_step srv_race ?s1 ?s1'"
    using sys_step.tick [of 2000 srv_race ?s1] by (simp add: advance_def)
  have a3: "sys_step srv_race ?s1' ?s2"
    using sys_step.type [of ?s1' srv_race "''ab''"] race_s2 by simp
  have a4: "sys_step srv_race ?s2 race3"
    using sys_step.settle [of 1 "''ab''" ?s2 srv_race "Resolved ok200 (srv_race ''ab'')"] race_s3
    by (simp add: outcome_ok_def)
  have "sys_step srv_race race3 (render (onSearch_settle ''a'' (Resolved ok200 payloadA)
      (race3\<lparr>inflight := remove1 (0, ''a'') (inflight race3)\<rparr>)))"
    by (rule sys_step.settle) (simp_all add: outcome_ok_def)
  then have a5: "sys_step srv_race race3 ?s4" by (simp only: race_s4)
  have r: "reachable srv_race ?s4"
    by (rule reachable.step [OF reachable.step [OF reachable.step [OF reachable.step
          [OF reachable.step [OF reachable.init a1] a2] a3] a4] a5])
  have "search_text (st ?s4) = ''ab'' \<and> cache ?s4 ''ab'' = Some [] \<and> items (st ?s4) = [itemA]
      \<and> list_visible (st ?s4)"
    by (simp add: list_visible_def hasItems_def initialState_def)
  with r show ?thesis by blast
qed

lemma run_u6: "render (run_timer (ThrottleExpired 0) ((page ''ab'' 2000 [] 2
     \<lparr>lastArgs = Some ''ab'', lastCallTime = Some 1, lastInvokeTime = 0, timerId = Some 1\<rparr> [(0, ''a'')])\<lparr>mounted := False\<rparr>)) =
   (page ''ab'' 2000 [] 2
     \<lparr>lastArgs = None, lastCallTime = Some 1, lastInvokeTime = 2000, timerId = None\<rparr> [(0, ''a''), (1, ''ab'')])\<lparr>mounted := False\<rparr>"
  by (simp add: run_defs)

text \<open>C28: a keystroke coalesced by the throttle before unmount is still searched when the throttle timer fires after unmount: the page sends a request after teardown.\<close>

theorem request_after_unmount:
  "\<exists>s s'. reachable srv s \<and> \<not> mounted s \<and> sys_step srv s s'
     \<and> map snd (inflight s) = [''a''] \<and> map snd (inflight s') = [''a'', ''ab'']"
proof -
  let ?th1 = "\<lparr>lastArgs = None, lastCallTime = Some 0, lastInvokeTime = 0, timerId = Some 1\<rparr> :: string throttle"
  let ?th2 = "\<lparr>lastArgs = Some ''ab'', lastCallTime = Some 1, lastInvokeTime = 0, timerId = Some 1\<rparr> :: string throttle"
  let ?th4 = "\<lparr>lastArgs = None, lastCallTime = Some 1, lastInvokeTime = 2000, timerId = None\<rparr> :: string throttle"
  let ?p = "[(1, 2000, ThrottleExpired 0)]"
  let ?u3 = "(page ''ab'' 1 ?p 2 ?th2 [(0, ''a'')])\<lparr>mounted := False\<rparr>"
  let ?u4 = "(page ''ab'' 2000 ?p 2 ?th2 [(0, ''a'')])\<lparr>mounted := False\<rparr>"
  have a1: "sys_step srv (sys_init 0) (page ''a'' 0 ?p 2 ?th1 [(0, ''a'')])"
    using sys_step.type [of "sys_init 0" srv "''a''"] run_s1 by (simp add: sys_init_def)
  have a2: "sys_step srv (page ''a'' 0 ?p 2 ?th1 [(0, ''a'')]) (page ''a'' 1 ?p 2 ?th1 [(0, ''a'')])"
    using sys_step.tick [of 1 srv "page ''a'' 0 ?p 2 ?th1 [(0, ''a'')]"] by (simp add: advance_def)
  have a3: "sys_step srv (page ''a'' 1 ?p 2 ?th1 [(0, ''a'')]) (page ''ab'' 1 ?p 2 ?th2 [(0, ''a'')])"
    using sys_step.type [of "page ''a'' 1 ?p 2 ?th1 [(0, ''a'')]" srv "''ab''"] run_s2 by simp
  have a4: "sys_step srv (page ''ab'' 1 ?p 2 ?th2 [(0, ''a'')]) ?u3"
    using sys_step.unmounting [of "page ''ab'' 1 ?p 2 ?th2 [(0, ''a'')]" srv]
    by (simp add: unmount_def lazy_unmount_def lazy_clear_def)
  have a5: "sys_step srv ?u3 ?u4"
    using sys_step.tick [of 1999 srv ?u3] by (simp add: advance_def)
  have fire: "timer_fire 1 (timers ?u4) = Some (ThrottleExpired 0, \<lparr>clock = 2000, pending = [], next_handle = 2\<rparr>)"
    by (simp add: timer_fire_def)
  have a6: "sys_step srv ?u4 ((page ''ab'' 2000 [] 2 ?th4 [(0, ''a''), (1, ''ab'')])\<lparr>mounted := False\<rparr>)"
    using sys_step.timer [OF fire, of srv] run_u6 by simp
  have r: "reachable srv ?u4"
    by (rule reachable.step [OF reachable.step [OF reachable.step [OF reachable.step
          [OF reachable.step [OF reachable.init a1] a2] a3] a4] a5])
  show ?thesis using r a6 by fastforce
qed

end
