(* ===== verification/Trailing.thy ===== *)
theory Trailing
  imports Runs
begin

text \<open>
  The trailing edge of the throttled search is never lost. The invariant
  \<open>page_inv\<close> of every reachable page state ties each throttle instance of
  \<open>Controller.throttles\<close> (the closure state of lodash's \<open>debounce\<close>) to the page's
  timer list: a pending \<open>timerExpired\<close> timer of instance \<open>k\<close> is the one
  \<open>timerId\<close> names, due no earlier than \<open>lastInvokeTime + 2000\<close> and no later
  than \<open>lastCallTime + 2000\<close>; an instance without a timer has no pending
  arguments; the handle in the ref of \<open>useLazyTimeout\<close> only ever names the
  dismissal timer, so \<open>_clearTiemout\<close> never cancels a throttle timer. From it:
  the last text typed is searched when its timer fires, at most 2000 ms after
  the keystroke.
\<close>

text \<open>Instance \<open>k\<close> with closure state \<open>th\<close> agrees with the timer list \<open>e\<close>.\<close>

definition throttle_ok :: "tcb timer_env \<Rightarrow> nat \<Rightarrow> string throttle \<Rightarrow> bool" where
  "throttle_ok e k th \<longleftrightarrow>
     (\<forall>(i, d, c) \<in> set (pending e). c = ThrottleExpired k \<longrightarrow>
         timerId th = Some i \<and> lastInvokeTime th + THROTTLE_WAIT \<le> d
         \<and> (case lastCallTime th of None \<Rightarrow> False | Some lc \<Rightarrow> d \<le> lc + THROTTLE_WAIT))
   \<and> (case timerId th of
        None \<Rightarrow> lastArgs th = None
      | Some i \<Rightarrow> (\<exists>(j, d, c) \<in> set (pending e). j = i \<and> c = ThrottleExpired k))
   \<and> (case lastCallTime th of
        None \<Rightarrow> True
      | Some lc \<Rightarrow> lc \<le> clock e \<and> lastInvokeTime th \<le> clock e)"

text \<open>The ref of \<open>useLazyTimeout\<close> names an issued handle, pending only as the dismissal.\<close>

definition lazy_ok :: "lazy_ref \<Rightarrow> tcb timer_env \<Rightarrow> bool" where
  "lazy_ok r e \<longleftrightarrow>
     (case r of
        None \<Rightarrow> True
      | Some i \<Rightarrow> i < next_handle e \<and> (\<forall>(j, d, c) \<in> set (pending e). j = i \<longrightarrow> c = DismissError))"

text \<open>Every pending throttle timer belongs to one of the \<open>n\<close> instances built so far.\<close>

definition owners_ok :: "nat \<Rightarrow> tcb timer_env \<Rightarrow> bool" where
  "owners_ok n e \<longleftrightarrow>
     (\<forall>(j, d, c) \<in> set (pending e). case c of ThrottleExpired k \<Rightarrow> k < n | DismissError \<Rightarrow> True)"

definition page_inv :: "sys \<Rightarrow> bool" where
  "page_inv s \<longleftrightarrow> timers_wf (timers s) \<and> throttles s \<noteq> [] \<and> lazy_ok (lazy s) (timers s)
     \<and> owners_ok (length (throttles s)) (timers s)
     \<and> (\<forall>k < length (throttles s). throttle_ok (timers s) k (snd (throttles s ! k)))"

subsection \<open>One throttle instance and the timer list\<close>

lemma delay_W: "timer_delay (Num THROTTLE_WAIT) = THROTTLE_WAIT"
  by (simp add: THROTTLE_WAIT_def delay_2000)

lemma throttle_call_ok:
  assumes wf: "timers_wf e" and ok: "throttle_ok e k th"
    and r: "fst (throttle_call THROTTLE_WAIT (ThrottleExpired k) x (th, e)) = (th', e')"
  shows "throttle_ok e' k th'"
  using assms
  by (auto simp: throttle_ok_def throttle_call_def shouldInvoke_def setTimeout_def clearTimeout_def delay_W
        Let_def timers_wf_def split: option.splits if_splits)

lemma throttle_ok_clearTimeout:
  assumes "throttle_ok e k th" and "\<forall>(j, d, c) \<in> set (pending e). j = i \<longrightarrow> c \<noteq> ThrottleExpired k"
  shows "throttle_ok (clearTimeout i e) k th"
  using assms by (fastforce simp: throttle_ok_def clearTimeout_def split: option.splits)

lemma throttle_ok_setTimeout:
  assumes "throttle_ok e k th" and "cb \<noteq> ThrottleExpired k"
  shows "throttle_ok (snd (setTimeout cb ms e)) k th"
  using assms by (fastforce simp: throttle_ok_def setTimeout_def split: option.splits)

lemma throttle_ok_advance:
  assumes "throttle_ok e k th" and "0 \<le> d"
  shows "throttle_ok (advance d e) k th"
  using assms by (fastforce simp: throttle_ok_def advance_def split: option.splits)

lemma throttle_ok_handle:
  assumes "timers_wf e" and "throttle_ok e k th" and "timerId th = Some i"
    and "(i, d, c) \<in> set (pending e)"
  shows "c = ThrottleExpired k"
proof -
  obtain d' where "(i, d', ThrottleExpired k) \<in> set (pending e)"
    using assms(2,3) by (auto simp: throttle_ok_def)
  with assms(1,4) show ?thesis
    using eq_key_imp_eq_value [of "pending e" i "(d, c)" "(d', ThrottleExpired k)"]
    by (auto simp: timers_wf_def)
qed

lemma throttle_call_other:
  assumes wf: "timers_wf e" and ok: "throttle_ok e k th" and ok': "throttle_ok e k' th2" and ne: "k' \<noteq> k"
  shows "throttle_ok (snd (fst (throttle_call THROTTLE_WAIT (ThrottleExpired k) x (th, e)))) k' th2"
proof -
  have clr: "throttle_ok (clearTimeout (the (timerId th)) e) k' th2" if "timerId th \<noteq> None"
  proof (rule throttle_ok_clearTimeout [OF ok'])
    have h: "c = ThrottleExpired k" if "(j, d, c) \<in> set (pending e)" and "j = the (timerId th)" for j d c
      using throttle_ok_handle [OF wf ok, of j d c] \<open>timerId th \<noteq> None\<close> that by auto
    show "\<forall>(j, d, c) \<in> set (pending e). j = the (timerId th) \<longrightarrow> c \<noteq> ThrottleExpired k'"
      using h ne by fastforce
  qed
  show ?thesis
    using clr ok' ne
    by (auto simp: throttle_call_def Let_def split_beta intro!: throttle_ok_setTimeout)
qed

lemma pending_handle_unique:
  assumes "timers_wf e" and "(i, d, c) \<in> set (pending e)" and "(i, d', c') \<in> set (pending e)"
  shows "d = d' \<and> c = c'"
  using assms eq_key_imp_eq_value [of "pending e" i "(d, c)" "(d', c')"] by (auto simp: timers_wf_def)

lemma throttle_ok_fire_other:
  assumes wf: "timers_wf e" and fire: "timer_fire i e = Some (cb, e1)" and ne: "cb \<noteq> ThrottleExpired k"
    and ok: "throttle_ok e k th"
  shows "throttle_ok e1 k th"
proof -
  obtain d where e1: "e1 = clearTimeout i e" and p: "(i, d, cb) \<in> set (pending e)"
    using timer_fire_Some [OF fire] by auto
  have "c \<noteq> ThrottleExpired k" if "(j, d', c) \<in> set (pending e)" and "j = i" for j d' c
    using pending_handle_unique [OF wf p, of d' c] that ne by auto
  then show ?thesis unfolding e1 using ok by (intro throttle_ok_clearTimeout) fastforce+
qed

lemma throttle_fire_due:
  assumes ok: "throttle_ok e k th" and fire: "timer_fire i e = Some (ThrottleExpired k, e1)"
  shows "shouldInvoke THROTTLE_WAIT th (clock e1) \<and> timerId th = Some i"
proof -
  obtain d where e1: "e1 = clearTimeout i e" and p: "(i, d, ThrottleExpired k) \<in> set (pending e)"
    and due: "d \<le> clock e"
    using timer_fire_Some [OF fire] by auto
  then have "timerId th = Some i" "lastInvokeTime th + THROTTLE_WAIT \<le> d"
    using ok by (auto simp: throttle_ok_def)
  with due e1 show ?thesis by (auto simp: shouldInvoke_def split: option.splits)
qed

lemma throttle_fire_ok:
  assumes wf: "timers_wf e" and ok: "throttle_ok e k th" and fire: "timer_fire i e = Some (ThrottleExpired k, e1)"
  shows "snd (throttle_timer THROTTLE_WAIT (ThrottleExpired k) (th, e1)) = lastArgs th
       \<and> snd (fst (throttle_timer THROTTLE_WAIT (ThrottleExpired k) (th, e1))) = e1
       \<and> throttle_ok e1 k (fst (fst (throttle_timer THROTTLE_WAIT (ThrottleExpired k) (th, e1))))"
proof -
  obtain d where e1: "e1 = clearTimeout i e" and p: "(i, d, ThrottleExpired k) \<in> set (pending e)"
    using timer_fire_Some [OF fire] by auto
  have due: "shouldInvoke THROTTLE_WAIT th (clock e1)" and tid: "timerId th = Some i"
    using throttle_fire_due [OF ok fire] by auto
  have none: "c \<noteq> ThrottleExpired k" if "(j, d', c) \<in> set (pending e1)" for j d' c
    using that ok tid by (auto simp: e1 clearTimeout_def throttle_ok_def)
  have cl: "clock e1 = clock e" by (simp add: e1)
  show ?thesis
    using due none ok cl
    by (auto simp: throttle_timer_def throttle_ok_def Let_def split: option.splits)
qed

subsection \<open>The page invariant is preserved by every step\<close>

lemma page_inv_frame:
  assumes "page_inv s" and "timers s' = timers s" and "lazy s' = lazy s" and "throttles s' = throttles s"
  shows "page_inv s'"
  using assms by (simp add: page_inv_def)

lemma throttle_ok_lazy_clear:
  assumes "lazy_ok r e" and "throttle_ok e k th"
  shows "throttle_ok (lazy_clear r e) k th"
  using assms by (auto simp: lazy_clear_def lazy_ok_def intro!: throttle_ok_clearTimeout split: option.splits)

lemma page_inv_setDismissableError:
  assumes inv: "page_inv s"
  shows "page_inv (setDismissableError err ms s)"
proof -
  let ?e0 = "lazy_clear (lazy s) (timers s)"
  have wf0: "timers_wf ?e0" using inv by (simp add: page_inv_def timers_wf_lazy_clear)
  have sub: "set (pending ?e0) \<subseteq> set (pending (timers s))" by (rule pending_lazy_clear_subset)
  have old: "j < next_handle (timers s)" if "(j, d, c) \<in> set (pending ?e0)" for j d c
    using wf0 that by (auto simp: timers_wf_def)
  have "lazy_ok (Some (next_handle (timers s))) (timers (setDismissableError err ms s))"
    using old by (fastforce simp: lazy_ok_def)
  moreover have "owners_ok (length (throttles s)) (timers (setDismissableError err ms s))"
    using inv sub by (fastforce simp: page_inv_def owners_ok_def)
  moreover have "throttle_ok (timers (setDismissableError err ms s)) k (snd (throttles s ! k))"
    if "k < length (throttles s)" for k
  proof -
    have "throttle_ok ?e0 k (snd (throttles s ! k))"
      using inv that by (intro throttle_ok_lazy_clear) (auto simp: page_inv_def)
    then have "throttle_ok (snd (setTimeout DismissError ms ?e0)) k (snd (throttles s ! k))"
      by (rule throttle_ok_setTimeout) simp
    then show ?thesis by (simp add: setDismissableError_def setLazyTimeout_def split_beta Let_def)
  qed
  moreover have "timers_wf (timers (setDismissableError err ms s))"
    using timers_wf_setTimeout [OF wf0, of DismissError ms]
    by (simp add: setDismissableError_def setLazyTimeout_def split_beta Let_def)
  ultimately show ?thesis using inv by (simp add: page_inv_def)
qed

lemma page_inv_dispatch: "page_inv s \<Longrightarrow> page_inv (dispatch a s)"
  by (rule page_inv_frame) simp_all

lemma page_inv_fetchIssues: "page_inv s \<Longrightarrow> page_inv (fetchIssues t s)"
  by (rule page_inv_frame) (simp_all add: fetchIssues_def)

lemma page_inv_onSearch: "page_inv s \<Longrightarrow> page_inv (onSearch snap t s)"
  by (simp add: onSearch_def Let_def page_inv_dispatch page_inv_fetchIssues page_inv_setDismissableError
      split: option.splits)

lemma page_inv_handleRateLimit: "page_inv s \<Longrightarrow> page_inv (handleRateLimit resp s)"
  by (simp add: handleRateLimit_def Let_def page_inv_dispatch page_inv_setDismissableError)

lemma page_inv_onSearch_settle: "page_inv s \<Longrightarrow> page_inv (onSearch_settle t out s)"
proof -
  assume inv: "page_inv s"
  then have "page_inv (handleRateLimit resp s)" for resp by (rule page_inv_handleRateLimit)
  moreover have "page_inv ((handleRateLimit resp s)\<lparr>cache := c\<rparr>)" for resp c
    using page_inv_handleRateLimit [OF inv, of resp] by (rule page_inv_frame) simp_all
  ultimately show ?thesis
    using inv by (simp add: onSearch_settle_def Let_def page_inv_dispatch split: fetch_outcome.splits sum.splits)
qed

lemma page_inv_render: "page_inv s \<Longrightarrow> page_inv (render s)"
proof -
  assume inv: "page_inv s"
  let ?n = "length (throttles s)"
  have fresh: "throttle_ok (timers s) ?n throttle_init"
    using inv by (fastforce simp: page_inv_def owners_ok_def throttle_ok_def throttle_init_def)
  have "page_inv (s\<lparr>throttles := throttles s @ [(st s, throttle_init)]\<rparr>)"
    using inv fresh
    by (fastforce simp: page_inv_def owners_ok_def nth_append less_Suc_eq split: tcb.splits)
  with inv show ?thesis by (simp add: render_def)
qed

lemma page_inv_onSelect: "page_inv s \<Longrightarrow> page_inv (onSelect x s)"
  by (simp add: onSelect_def page_inv_dispatch)

lemma key_down_frame:
  "timers (key_down k s) = timers s \<and> lazy (key_down k s) = lazy s \<and> throttles (key_down k s) = throttles s"
  by (simp add: key_down_def onSelect_def Let_def split_beta split: option.splits)

lemma blur_frame:
  "timers (blur s) = timers s \<and> lazy (blur s) = lazy s \<and> throttles (blur s) = throttles s"
  by (simp add: blur_def onSelect_def Let_def split_beta split: option.splits)

lemma page_inv_key_down: "page_inv s \<Longrightarrow> page_inv (key_down k s)"
  using key_down_frame [of k s] by (blast intro: page_inv_frame)

lemma page_inv_blur: "page_inv s \<Longrightarrow> page_inv (blur s)"
  using blur_frame [of s] by (blast intro: page_inv_frame)

lemma page_inv_unmount: "page_inv s \<Longrightarrow> page_inv (unmount s)"
proof -
  assume inv: "page_inv s"
  have "lazy_ok (lazy s) (lazy_clear (lazy s) (timers s))"
    using inv by (fastforce simp: page_inv_def lazy_ok_def lazy_clear_def clearTimeout_def split: option.splits)
  moreover have "owners_ok (length (throttles s)) (lazy_clear (lazy s) (timers s))"
    using inv pending_lazy_clear_subset [of "lazy s" "timers s"] by (fastforce simp: page_inv_def owners_ok_def)
  moreover have "throttle_ok (lazy_clear (lazy s) (timers s)) k (snd (throttles s ! k))"
    if "k < length (throttles s)" for k
    using inv that by (intro throttle_ok_lazy_clear) (auto simp: page_inv_def)
  ultimately show ?thesis
    using inv by (simp add: page_inv_def unmount_def lazy_unmount_def timers_wf_lazy_clear)
qed

lemma page_inv_tick: "page_inv s \<Longrightarrow> 0 \<le> d \<Longrightarrow> page_inv (s\<lparr>timers := advance d (timers s)\<rparr>)"
  by (simp add: page_inv_def timers_wf_advance throttle_ok_advance)
     (auto simp: lazy_ok_def owners_ok_def advance_def split: option.splits)

lemma throttle_call_pending:
  assumes "fst (throttle_call w cb x (th, e)) = (th', e')"
  shows "set (pending e') \<subseteq> set (pending e) \<union> {(next_handle e, clock e + timer_delay (Num w), cb)}
       \<and> next_handle e \<le> next_handle e' \<and> (timers_wf e \<longrightarrow> timers_wf e')"
proof -
  have "timers_wf e \<Longrightarrow> timers_wf e'"
    using assms by (auto simp: throttle_call_def Let_def split_beta split: if_splits
        intro: timers_wf_setTimeout timers_wf_setTimeout [OF timers_wf_clearTimeout])
  moreover have "set (pending e') \<subseteq> set (pending e) \<union> {(next_handle e, clock e + timer_delay (Num w), cb)}
       \<and> next_handle e \<le> next_handle e'"
    using assms by (auto simp: throttle_call_def setTimeout_def clearTimeout_def Let_def split: if_splits)
  ultimately show ?thesis by blast
qed

lemma page_inv_throttle_call:
  assumes inv: "page_inv s" and k: "k < length (throttles s)" and th: "throttles s ! k = (snap, th)"
    and r: "fst (throttle_call THROTTLE_WAIT (ThrottleExpired k) x (th, timers s)) = (th', e')"
  shows "page_inv (s\<lparr>throttles := (throttles s)[k := (snap, th')], timers := e'\<rparr>)"
proof -
  let ?e = "timers s"
  have p: "set (pending e') \<subseteq> set (pending ?e) \<union> {(next_handle ?e, clock ?e + timer_delay (Num THROTTLE_WAIT), ThrottleExpired k)}"
    and nh: "next_handle ?e \<le> next_handle e'" and wf: "timers_wf e'"
    using throttle_call_pending [OF r] inv by (auto simp: page_inv_def)
  have wf0: "timers_wf ?e" using inv by (simp add: page_inv_def)
  have ok_k: "throttle_ok ?e k th" using inv k th by (auto simp: page_inv_def dest: spec [of _ k])
  have "lazy_ok (lazy s) e'"
  proof (cases "lazy s")
    case (Some i)
    then have i: "i < next_handle ?e" and old: "\<forall>(j, d, c) \<in> set (pending ?e). j = i \<longrightarrow> c = DismissError"
      using inv by (auto simp: page_inv_def lazy_ok_def)
    show ?thesis using Some i old p nh by (fastforce simp: lazy_ok_def)
  qed (simp add: lazy_ok_def)
  moreover have "owners_ok (length (throttles s)) e'"
    using inv p k by (fastforce simp: page_inv_def owners_ok_def)
  moreover have "throttle_ok e' j (snd ((throttles s)[k := (snap, th')] ! j))"
    if j: "j < length (throttles s)" for j
  proof (cases "j = k")
    case True
    then show ?thesis using throttle_call_ok [OF wf0 ok_k r] k by simp
  next
    case False
    have "throttle_ok ?e j (snd (throttles s ! j))" using inv j by (simp add: page_inv_def)
    then have "throttle_ok (snd (fst (throttle_call THROTTLE_WAIT (ThrottleExpired k) x (th, ?e)))) j (snd (throttles s ! j))"
      using throttle_call_other [OF wf0 ok_k _ False] by blast
    then show ?thesis using False r by simp
  qed
  ultimately show ?thesis using inv wf by (simp add: page_inv_def)
qed

lemma page_inv_onSearchThrottled: "page_inv s \<Longrightarrow> page_inv (onSearchThrottled t s)"
proof -
  assume inv: "page_inv s"
  let ?k = "length (throttles s) - 1"
  obtain snap th where th: "throttles s ! ?k = (snap, th)" by (cases "throttles s ! ?k") auto
  obtain th' e' called where r: "throttle_call THROTTLE_WAIT (ThrottleExpired ?k) t (th, timers s) = ((th', e'), called)"
    by (metis prod.collapse)
  have ne: "throttles s \<noteq> []" using inv by (simp add: page_inv_def)
  then have k: "?k < length (throttles s)" by simp
  have s1: "page_inv (s\<lparr>throttles := (throttles s)[?k := (snap, th')], timers := e'\<rparr>)"
    using page_inv_throttle_call [OF inv k th, of t th' e'] r by simp
  then show ?thesis
    using th r by (cases called) (simp_all add: onSearchThrottled_def run_search_def Let_def page_inv_onSearch)
qed

lemma page_inv_onChangeText: "page_inv s \<Longrightarrow> page_inv (onChangeText t s)"
  by (simp add: onChangeText_def page_inv_dispatch page_inv_onSearchThrottled)

lemma page_inv_fired:
  assumes inv: "page_inv s" and fire: "timer_fire i (timers s) = Some (cb, e1)"
  shows "timers_wf e1 \<and> lazy_ok (lazy s) e1 \<and> owners_ok (length (throttles s)) e1"
proof -
  have e1: "e1 = clearTimeout i (timers s)" using timer_fire_Some [OF fire] by simp
  have "timers_wf e1" using inv by (simp add: e1 page_inv_def timers_wf_clearTimeout)
  moreover have "lazy_ok (lazy s) e1"
    using inv by (auto simp: e1 page_inv_def lazy_ok_def clearTimeout_def split: option.splits)
  moreover have "owners_ok (length (throttles s)) e1"
    using inv by (auto simp: e1 page_inv_def owners_ok_def clearTimeout_def)
  ultimately show ?thesis by blast
qed

lemma page_inv_timer:
  assumes inv: "page_inv s" and fire: "timer_fire i (timers s) = Some (cb, e1)"
  shows "page_inv (run_timer cb (s\<lparr>timers := e1\<rparr>))"
proof -
  have wf: "timers_wf (timers s)" using inv by (simp add: page_inv_def)
  have oth: "throttle_ok e1 k (snd (throttles s ! k))"
    if "k < length (throttles s)" and "cb \<noteq> ThrottleExpired k" for k
    using that inv by (intro throttle_ok_fire_other [OF wf fire]) (auto simp: page_inv_def)
  have base: "timers_wf e1 \<and> lazy_ok (lazy s) e1 \<and> owners_ok (length (throttles s)) e1"
    using page_inv_fired [OF inv fire] .
  show ?thesis
  proof (cases cb)
    case DismissError
    then have "page_inv (s\<lparr>timers := e1\<rparr>)"
      using inv base oth by (simp add: page_inv_def)
    then show ?thesis using DismissError by (simp add: run_timer_def page_inv_dispatch)
  next
    case (ThrottleExpired k)
    obtain d where "(i, d, ThrottleExpired k) \<in> set (pending (timers s))"
      using timer_fire_Some [OF fire] ThrottleExpired by auto
    then have k: "k < length (throttles s)" using inv by (fastforce simp: page_inv_def owners_ok_def)
    obtain snap th where th: "throttles s ! k = (snap, th)" by (cases "throttles s ! k") auto
    have ok: "throttle_ok (timers s) k th" using inv k th by (auto simp: page_inv_def dest: spec [of _ k])
    let ?r = "throttle_timer THROTTLE_WAIT (ThrottleExpired k) (th, e1)"
    have r: "snd (fst ?r) = e1" "throttle_ok e1 k (fst (fst ?r))"
      using throttle_fire_ok [OF wf ok fire [unfolded ThrottleExpired]] by auto
    obtain th' where "fst ?r = (th', e1)" using r(1) by (cases "fst ?r") auto
    then have th': "fst (fst ?r) = th'" "snd (fst ?r) = e1" by simp_all
    let ?s2 = "s\<lparr>throttles := (throttles s)[k := (snap, th')], timers := e1\<rparr>"
    have "throttle_ok e1 j (snd ((throttles s)[k := (snap, th')] ! j))"
      if "j < length (throttles s)" for j
      using that r(2) th' oth ThrottleExpired by (cases "j = k") auto
    then have s2: "page_inv ?s2" using inv base by (simp add: page_inv_def)
    show ?thesis
    proof (cases "snd ?r")
      case None
      then have "run_timer cb (s\<lparr>timers := e1\<rparr>) = ?s2"
        using run_timer_throttle_eq [of k "s\<lparr>timers := e1\<rparr>" snap th] k th ThrottleExpired
        by (simp add: Let_def th')
      with s2 show ?thesis by simp
    next
      case (Some x)
      then have "run_timer cb (s\<lparr>timers := e1\<rparr>) = onSearch snap x ?s2"
        using run_timer_throttle_eq [of k "s\<lparr>timers := e1\<rparr>" snap th] k th ThrottleExpired
        by (simp add: Let_def th')
      with s2 show ?thesis by (simp add: page_inv_onSearch)
    qed
  qed
qed

lemma page_inv_step: "sys_step srv s s' \<Longrightarrow> page_inv s \<Longrightarrow> page_inv s'"
proof (induction rule: sys_step.induct)
  case (settle n t s out)
  have "page_inv (s\<lparr>inflight := remove1 (n, t) (inflight s)\<rparr>)"
    using settle.prems by (rule page_inv_frame) simp_all
  then show ?case by (intro page_inv_render page_inv_onSearch_settle)
next
  case (timer i s cb e')
  then show ?case by (intro page_inv_render page_inv_timer)
qed (auto intro: page_inv_render page_inv_onChangeText page_inv_key_down page_inv_blur
       page_inv_onSelect page_inv_unmount page_inv_tick)

lemma reachable_page_inv: "reachable srv s \<Longrightarrow> page_inv s"
proof (induction rule: reachable.induct)
  case (init t)
  show ?case
    by (simp add: page_inv_def sys_init_def timers_wf_init)
       (simp add: lazy_ok_def owners_ok_def throttle_ok_def throttle_init_def timers_init_def)
next
  case (step s s')
  then show ?case using page_inv_step by blast
qed

subsection \<open>The trailing edge fires\<close>

lemma timer_fire_pending:
  assumes wf: "timers_wf e" and p: "(i, due, cb) \<in> set (pending e)" and due: "due \<le> clock e"
  shows "timer_fire i e = Some (cb, clearTimeout i e)"
proof -
  have "find (\<lambda>(j, _, _). j = i) (pending e) \<noteq> None"
    using p by (auto simp: find_None_iff)
  then obtain x where x: "find (\<lambda>(j, _, _). j = i) (pending e) = Some x" by blast
  then have "x \<in> set (pending e)" and "fst x = i"
    by (auto simp: find_Some_iff in_set_conv_nth split_beta)
  moreover obtain j d' c' where xj: "x = (j, d', c')" by (cases x) auto
  ultimately have "(i, d', c') \<in> set (pending e)" by simp
  then have "x = (i, due, cb)" using pending_handle_unique [OF wf p] xj \<open>fst x = i\<close> by auto
  with x due show ?thesis by (simp add: timer_fire_def clearTimeout_def)
qed

text \<open>C16: in every reachable page state, a text waiting in a throttle instance has a pending timer due at most 2000 ms after its keystroke, and once that time has passed the timer fires and the text is searched.\<close>

theorem trailing_call_fires:
  assumes r: "reachable srv s" and k: "k < length (throttles s)" and th: "throttles s ! k = (snap, th)"
    and pend: "lastArgs th = Some t"
  shows "\<exists>i due lc. timerId th = Some i \<and> lastCallTime th = Some lc
     \<and> (i, due, ThrottleExpired k) \<in> set (pending (timers s)) \<and> due \<le> lc + THROTTLE_WAIT
     \<and> (\<forall>d. 0 \<le> d \<and> due \<le> clock (timers s) + d \<longrightarrow>
          (\<exists>e' th'. timer_fire i (advance d (timers s)) = Some (ThrottleExpired k, e')
             \<and> run_timer (ThrottleExpired k) (s\<lparr>timers := e'\<rparr>)
                 = onSearch snap t (s\<lparr>throttles := (throttles s)[k := (snap, th')], timers := e'\<rparr>)))"
proof -
  have inv: "page_inv s" using r by (rule reachable_page_inv)
  then have wf: "timers_wf (timers s)" and ok: "throttle_ok (timers s) k th"
    using k th by (auto simp: page_inv_def dest: spec [of _ k])
  obtain i where i: "timerId th = Some i"
    using ok pend by (cases "timerId th") (auto simp: throttle_ok_def)
  then obtain due c where p: "(i, due, c) \<in> set (pending (timers s))" and c: "c = ThrottleExpired k"
    using ok by (auto simp: throttle_ok_def)
  then obtain lc where lc: "lastCallTime th = Some lc" and due: "due \<le> lc + THROTTLE_WAIT"
    using ok by (cases "lastCallTime th") (fastforce simp: throttle_ok_def)+
  have fires: "\<exists>e' th'. timer_fire i (advance d (timers s)) = Some (ThrottleExpired k, e')
      \<and> run_timer (ThrottleExpired k) (s\<lparr>timers := e'\<rparr>)
          = onSearch snap t (s\<lparr>throttles := (throttles s)[k := (snap, th')], timers := e'\<rparr>)"
    if d: "0 \<le> d" and late: "due \<le> clock (timers s) + d" for d
  proof -
    let ?e = "advance d (timers s)"
    have wf': "timers_wf ?e" using wf by (rule timers_wf_advance)
    have ok': "throttle_ok ?e k th" using ok d by (rule throttle_ok_advance)
    have fire: "timer_fire i ?e = Some (ThrottleExpired k, clearTimeout i ?e)"
      using p c late by (intro timer_fire_pending [OF wf']) (simp_all add: advance_def)
    let ?r = "throttle_timer THROTTLE_WAIT (ThrottleExpired k) (th, clearTimeout i ?e)"
    have r': "snd ?r = Some t" "snd (fst ?r) = clearTimeout i ?e"
      using throttle_fire_ok [OF wf' ok' fire] pend by auto
    have "run_timer (ThrottleExpired k) (s\<lparr>timers := clearTimeout i ?e\<rparr>)
        = onSearch snap t (s\<lparr>throttles := (throttles s)[k := (snap, fst (fst ?r))], timers := clearTimeout i ?e\<rparr>)"
      using run_timer_throttle_eq [of k "s\<lparr>timers := clearTimeout i ?e\<rparr>" snap th] k th r'
      by (simp add: Let_def)
    with fire show ?thesis by blast
  qed
  show ?thesis using i lc p c due fires by blast
qed

theorem trailing_call_fires_witness:
  "reachable srv_empty (page ''ab'' 1 [(1, 2000, ThrottleExpired 0)] 2
      \<lparr>lastArgs = Some ''ab'', lastCallTime = Some 1, lastInvokeTime = 0, timerId = Some 1\<rparr> [(0, ''a'')])
   \<and> (\<exists>e' th'. timer_fire 1 (advance 1999 \<lparr>clock = 1, pending = [(1, 2000, ThrottleExpired 0)], next_handle = 2\<rparr>)
          = Some (ThrottleExpired 0, e')
        \<and> run_timer (ThrottleExpired 0)
            ((page ''ab'' 1 [(1, 2000, ThrottleExpired 0)] 2
              \<lparr>lastArgs = Some ''ab'', lastCallTime = Some 1, lastInvokeTime = 0, timerId = Some 1\<rparr> [(0, ''a'')])
             \<lparr>timers := e'\<rparr>)
          = onSearch initialState ''ab''
              ((page ''ab'' 1 [(1, 2000, ThrottleExpired 0)] 2
                \<lparr>lastArgs = Some ''ab'', lastCallTime = Some 1, lastInvokeTime = 0, timerId = Some 1\<rparr> [(0, ''a'')])
               \<lparr>throttles := [(initialState, th')], timers := e'\<rparr>))"
proof -
  let ?th1 = "\<lparr>lastArgs = None, lastCallTime = Some 0, lastInvokeTime = 0, timerId = Some 1\<rparr> :: string throttle"
  let ?th2 = "\<lparr>lastArgs = Some ''ab'', lastCallTime = Some 1, lastInvokeTime = 0, timerId = Some 1\<rparr> :: string throttle"
  let ?p = "[(1, 2000, ThrottleExpired 0)]"
  let ?s = "page ''ab'' 1 ?p 2 ?th2 [(0, ''a'')]"
  have a1: "sys_step srv_empty (sys_init 0) (page ''a'' 0 ?p 2 ?th1 [(0, ''a'')])"
    using sys_step.type [of "sys_init 0" srv_empty "''a''"] run_s1 by (simp add: sys_init_def)
  have a2: "sys_step srv_empty (page ''a'' 0 ?p 2 ?th1 [(0, ''a'')]) (page ''a'' 1 ?p 2 ?th1 [(0, ''a'')])"
    using sys_step.tick [of 1 srv_empty "page ''a'' 0 ?p 2 ?th1 [(0, ''a'')]"] by (simp add: advance_def)
  have a3: "sys_step srv_empty (page ''a'' 1 ?p 2 ?th1 [(0, ''a'')]) ?s"
    using sys_step.type [of "page ''a'' 1 ?p 2 ?th1 [(0, ''a'')]" srv_empty "''ab''"] run_s2 by simp
  have r: "reachable srv_empty ?s"
    by (rule reachable.step [OF reachable.step [OF reachable.step [OF reachable.init a1] a2] a3])
  obtain i due lc where i: "timerId ?th2 = Some i" and p: "(i, due, ThrottleExpired 0) \<in> set (pending (timers ?s))"
    and all: "\<forall>d. 0 \<le> d \<and> due \<le> clock (timers ?s) + d \<longrightarrow>
          (\<exists>e' th'. timer_fire i (advance d (timers ?s)) = Some (ThrottleExpired 0, e')
             \<and> run_timer (ThrottleExpired 0) (?s\<lparr>timers := e'\<rparr>)
                 = onSearch initialState ''ab'' (?s\<lparr>throttles := (throttles ?s)[0 := (initialState, th')], timers := e'\<rparr>))"
    using trailing_call_fires [OF r, of 0 initialState ?th2 "''ab''"] by auto
  have "i = 1" "due = 2000" using i p by auto
  then show ?thesis using r all [rule_format, of 1999] by simp
qed

end
