(* ===== verification/EventLoop.thy ===== *)
theory EventLoop
  imports Trailing
begin

text \<open>
  The browser's event loop at one instant: \<open>drain\<close> runs the due timers of the page,
  earliest due first, each followed by the render, until none is due. It is written as a
  \<open>partial_function (option)\<close>, since a timer callback may schedule further timers;
  \<open>drain_returns\<close> shows that from every reachable page state it returns, by the
  weight \<open>timer_weight\<close> (two for a throttle timer, one for a dismissal timer), which
  every fired timer decreases: a throttle timer fires its trailing edge and may only
  schedule a dismissal (the invariant \<open>page_inv\<close> of \<open>Trailing\<close> rules out a
  re-armed throttle timer), a dismissal timer schedules nothing. The theory also shows
  that the error shown is always one of the two errors of \<open>useAutocomplete.js\<close>.
\<close>

text \<open>The handle of the pending timer that is due first, if any is due.\<close>

definition next_due :: "'cb timer_env \<Rightarrow> nat option" where
  "next_due e =
     map_option fst (find (\<lambda>(_, d, _). d \<le> clock e) (sort_key (\<lambda>(_, d, _). d) (pending e)))"

partial_function (option) drain :: "sys \<Rightarrow> sys option" where
  "drain s =
     (case next_due (timers s) of
        None \<Rightarrow> Some s
      | Some i \<Rightarrow>
          (case timer_fire i (timers s) of
             None \<Rightarrow> Some s
           | Some (cb, e') \<Rightarrow> drain (render (run_timer cb (s\<lparr>timers := e'\<rparr>)))))"

text \<open>The \<open>error\<close> field holds one of the two errors the controller sets, or none.\<close>

definition error_ok :: "sys \<Rightarrow> bool" where
  "error_ok s \<longleftrightarrow> error (st s) \<in> {None, Some GENERIC_ERROR, Some RATE_LIMIT_ERROR}"

definition tcb_weight :: "tcb \<Rightarrow> nat" where
  "tcb_weight c = (case c of DismissError \<Rightarrow> 1 | ThrottleExpired _ \<Rightarrow> 2)"

definition timer_weight :: "tcb timer_env \<Rightarrow> nat" where
  "timer_weight e = sum_list (map (\<lambda>(_, _, c). tcb_weight c) (pending e))"

lemma pending_clearTimeout_fst: "pending (clearTimeout i e) = filter (\<lambda>x. fst x \<noteq> i) (pending e)"
  by (auto simp: clearTimeout_def intro: filter_cong)

subsection \<open>Running the due timers ends\<close>

lemma timer_weight_fire:
  assumes wf: "timers_wf e" and fire: "timer_fire i e = Some (cb, e')"
  shows "timer_weight e' + tcb_weight cb = timer_weight e"
proof -
  obtain d where e': "e' = clearTimeout i e" and p: "(i, d, cb) \<in> set (pending e)"
    using timer_fire_Some [OF fire] by auto
  show ?thesis
    using sum_list_remove_key [of "pending e" i d cb tcb_weight] wf p
    by (simp add: e' timer_weight_def pending_clearTimeout_fst timers_wf_def)
qed

lemma timer_weight_setDismissableError:
  "timer_weight (timers (setDismissableError err ms s)) \<le> timer_weight (timers s) + 1"
proof -
  have "timer_weight (lazy_clear (lazy s) (timers s)) \<le> timer_weight (timers s)"
    by (auto simp: timer_weight_def lazy_clear_def clearTimeout_def sum_list_filter_le split: option.splits)
  then show ?thesis
    by (simp add: setDismissableError_def setLazyTimeout_def setTimeout_def split_beta Let_def
        timer_weight_def tcb_weight_def)
qed

lemma timer_weight_onSearch:
  "timer_weight (timers (onSearch snap t s)) \<le> timer_weight (timers s) + 1"
  using timer_weight_setDismissableError [of RATE_LIMIT_ERROR _ s]
  by (auto simp: onSearch_def fetchIssues_def Let_def split: option.splits)

lemma timer_weight_run_timer:
  assumes inv: "page_inv s" and fire: "timer_fire i (timers s) = Some (cb, e1)"
  shows "timer_weight (timers (run_timer cb (s\<lparr>timers := e1\<rparr>))) < timer_weight e1 + tcb_weight cb"
proof (cases cb)
  case DismissError
  then show ?thesis by (simp add: run_timer_def tcb_weight_def)
next
  case (ThrottleExpired k)
  have wf: "timers_wf (timers s)" using inv by (simp add: page_inv_def)
  obtain d where "(i, d, ThrottleExpired k) \<in> set (pending (timers s))"
    using timer_fire_Some [OF fire] ThrottleExpired by auto
  then have k: "k < length (throttles s)" using inv by (fastforce simp: page_inv_def owners_ok_def)
  obtain snap th where th: "throttles s ! k = (snap, th)" by (cases "throttles s ! k") auto
  have ok: "throttle_ok (timers s) k th" using inv k th by (auto simp: page_inv_def dest: spec [of _ k])
  let ?r = "throttle_timer THROTTLE_WAIT (ThrottleExpired k) (th, e1)"
  have r: "snd (fst ?r) = e1"
    using throttle_fire_ok [OF wf ok fire [unfolded ThrottleExpired]] by auto
  let ?s2 = "s\<lparr>throttles := (throttles s)[k := (snap, fst (fst ?r))], timers := e1\<rparr>"
  have "timer_weight (timers (run_timer cb (s\<lparr>timers := e1\<rparr>))) \<le> timer_weight e1 + 1"
  proof (cases "snd ?r")
    case None
    then have "run_timer cb (s\<lparr>timers := e1\<rparr>) = ?s2"
      using run_timer_throttle_eq [of k "s\<lparr>timers := e1\<rparr>" snap th] k th ThrottleExpired r
      by (simp add: Let_def)
    then show ?thesis by simp
  next
    case (Some x)
    then have "run_timer cb (s\<lparr>timers := e1\<rparr>) = onSearch snap x ?s2"
      using run_timer_throttle_eq [of k "s\<lparr>timers := e1\<rparr>" snap th] k th ThrottleExpired r
      by (simp add: Let_def)
    then show ?thesis using timer_weight_onSearch [of snap x ?s2] by simp
  qed
  then show ?thesis using ThrottleExpired by (simp add: tcb_weight_def)
qed

lemma timer_weight_step:
  assumes inv: "page_inv s" and fire: "timer_fire i (timers s) = Some (cb, e1)"
  shows "timer_weight (timers (render (run_timer cb (s\<lparr>timers := e1\<rparr>)))) < timer_weight (timers s)"
proof -
  have "timer_weight e1 + tcb_weight cb = timer_weight (timers s)"
    using inv fire by (intro timer_weight_fire) (simp_all add: page_inv_def)
  then show ?thesis using timer_weight_run_timer [OF inv fire] by simp
qed

lemma next_due_Some:
  assumes "next_due e = Some i"
  shows "\<exists>d cb. (i, d, cb) \<in> set (pending e) \<and> d \<le> clock e"
proof -
  obtain x where "find (\<lambda>(_, d, _). d \<le> clock e) (sort_key (\<lambda>(_, d, _). d) (pending e)) = Some x"
    and "fst x = i"
    using assms by (auto simp: next_due_def)
  moreover obtain j d cb where x: "x = (j, d, cb)" by (cases x) auto
  ultimately have "(i, d, cb) \<in> set (pending e) \<and> d \<le> clock e"
    using find_Some_mem [of _ _ x] by fastforce
  then show ?thesis by blast
qed

text \<open>C17: from every reachable page state, running the due timers one after the other ends, in a reachable state where no timer is due.\<close>

theorem drain_returns:
  assumes "reachable srv s"
  shows "\<exists>s'. drain s = Some s' \<and> reachable srv s' \<and> next_due (timers s') = None"
  using assms
proof (induction "timer_weight (timers s)" arbitrary: s rule: less_induct)
  case less
  show ?case
  proof (cases "next_due (timers s)")
    case None
    then show ?thesis using less.prems by (simp add: drain.simps)
  next
    case (Some i)
    obtain d cb where p: "(i, d, cb) \<in> set (pending (timers s))" and due: "d \<le> clock (timers s)"
      using next_due_Some [OF Some] by blast
    have inv: "page_inv s" using less.prems by (rule reachable_page_inv)
    then have wf: "timers_wf (timers s)" by (simp add: page_inv_def)
    let ?e1 = "clearTimeout i (timers s)"
    have fire: "timer_fire i (timers s) = Some (cb, ?e1)"
      using timer_fire_pending [OF wf p due] .
    let ?s2 = "render (run_timer cb (s\<lparr>timers := ?e1\<rparr>))"
    have r2: "reachable srv ?s2"
      using less.prems sys_step.timer [OF fire] by (rule reachable.step)
    have "timer_weight (timers ?s2) < timer_weight (timers s)"
      using timer_weight_step [OF inv fire] .
    then obtain s' where "drain ?s2 = Some s'" "reachable srv s'" "next_due (timers s') = None"
      using less.hyps r2 by blast
    moreover have "drain s = drain ?s2" using Some fire by (simp add: drain.simps)
    ultimately show ?thesis by auto
  qed
qed

subsection \<open>The error field\<close>

lemma error_ok_dispatch:
  assumes "error_ok s" and "\<forall>e. a = setError e \<longrightarrow> e \<in> {None, Some GENERIC_ERROR, Some RATE_LIMIT_ERROR}"
  shows "error_ok (dispatch a s)"
  using assms by (cases a) (auto simp: error_ok_def dispatch_def)

lemma error_ok_setDismissableError:
  "error_ok s \<Longrightarrow> err \<in> {GENERIC_ERROR, RATE_LIMIT_ERROR} \<Longrightarrow> error_ok (setDismissableError err ms s)"
  by (auto simp: setDismissableError_def error_ok_def dispatch_def split_beta)

lemma error_ok_frame: "error_ok s \<Longrightarrow> st s' = st s \<Longrightarrow> error_ok s'"
  by (simp add: error_ok_def)

lemma error_ok_upd [simp]:
  "error_ok (s\<lparr>throttles := X, timers := Y\<rparr>) = error_ok s" "error_ok (s\<lparr>timers := Y\<rparr>) = error_ok s"
  "error_ok (s\<lparr>cache := C\<rparr>) = error_ok s" "error_ok (s\<lparr>inflight := F\<rparr>) = error_ok s"
  "error_ok (fetchIssues t s) = error_ok s" "error_ok (s\<lparr>highlightedIndex := h\<rparr>) = error_ok s"
  by (simp_all add: error_ok_def fetchIssues_def)

lemma error_ok_onSearch: "error_ok s \<Longrightarrow> error_ok (onSearch snap t s)"
  by (auto simp: onSearch_def Let_def error_ok_setDismissableError
      intro: error_ok_dispatch split: option.splits)

lemma error_ok_handleRateLimit: "error_ok s \<Longrightarrow> error_ok (handleRateLimit resp s)"
proof -
  assume "error_ok s"
  then have "error_ok (dispatch (updateRateLimits r b) s)" for r b by (rule error_ok_dispatch) simp
  then show ?thesis by (simp add: handleRateLimit_def Let_def error_ok_setDismissableError)
qed

lemma error_ok_onSearch_settle: "error_ok s \<Longrightarrow> error_ok (onSearch_settle t out s)"
proof -
  assume e: "error_ok s"
  have h: "error_ok (handleRateLimit resp s)" for resp using e by (rule error_ok_handleRateLimit)
  then have "error_ok ((handleRateLimit resp s)\<lparr>cache := c\<rparr>)" for resp c by simp
  then show ?thesis
    using e h by (auto simp: onSearch_settle_def Let_def intro!: error_ok_dispatch
        split: fetch_outcome.splits sum.splits)
qed

lemma error_ok_run_search: "error_ok s0 \<Longrightarrow> st s = st s0 \<Longrightarrow> error_ok (run_search k c s)"
  using error_ok_frame [of s0 s] by (simp add: run_search_def error_ok_onSearch split: option.splits)

lemma error_ok_onChangeText: "error_ok s \<Longrightarrow> error_ok (onChangeText t s)"
proof -
  assume "error_ok s"
  then have e1: "error_ok (dispatch (changeText t) s)" by (rule error_ok_dispatch) simp
  show ?thesis
    unfolding onChangeText_def onSearchThrottled_def Let_def split_beta
    by (rule error_ok_run_search [OF e1]) simp
qed

lemma error_ok_run_timer: "error_ok s \<Longrightarrow> error_ok (run_timer cb s)"
proof -
  assume e: "error_ok s"
  show ?thesis
  proof (cases cb)
    case DismissError
    then show ?thesis using e by (simp add: run_timer_def error_ok_dispatch)
  next
    case (ThrottleExpired k)
    show ?thesis
    proof (cases "k < length (throttles s)")
      case True
      show ?thesis
        unfolding ThrottleExpired run_timer_def tcb.case if_P [OF True] Let_def split_beta
        by (rule error_ok_run_search [OF e]) simp
    qed (simp add: ThrottleExpired run_timer_def e)
  qed
qed

lemma error_ok_render: "error_ok s \<Longrightarrow> error_ok (render s)"
  by (simp add: error_ok_def)

lemma error_ok_onSelect: "error_ok s \<Longrightarrow> error_ok (onSelect x s)"
  by (simp add: onSelect_def error_ok_dispatch)

lemma error_ok_key_down: "error_ok s \<Longrightarrow> error_ok (key_down k s)"
  by (simp add: key_down_def Let_def split_beta error_ok_onSelect split: option.splits)

lemma error_ok_blur: "error_ok s \<Longrightarrow> error_ok (blur s)"
  by (simp add: blur_def Let_def split_beta error_ok_onSelect split: option.splits)

lemma error_ok_unmount: "error_ok s \<Longrightarrow> error_ok (unmount s)"
  by (simp add: unmount_def error_ok_def split_beta)

text \<open>C26: in every reachable page state the error shown is none, the generic error or the rate-limit error.\<close>

theorem reachable_error_kinds:
  assumes "reachable srv s"
  shows "error (st s) = None \<or> error (st s) = Some GENERIC_ERROR \<or> error (st s) = Some RATE_LIMIT_ERROR"
proof -
  from assms have "error_ok s"
  proof (induction rule: reachable.induct)
    case (init t)
    then show ?case by (simp add: error_ok_def sys_init_def initialState_def)
  next
    case (step s s')
    from step.hyps(2) step.IH show ?case
    proof (induction rule: sys_step.induct)
      case (settle n t s out)
      then have "error_ok (s\<lparr>inflight := remove1 (n, t) (inflight s)\<rparr>)" by (simp add: error_ok_def)
      then show ?case by (intro error_ok_render error_ok_onSearch_settle)
    next
      case (tick d s)
      then show ?case by (simp add: error_ok_def)
    qed (simp_all add: error_ok_render error_ok_onChangeText error_ok_key_down error_ok_blur
           error_ok_onSelect error_ok_run_timer error_ok_unmount)
  qed
  then show ?thesis by (auto simp: error_ok_def)
qed

theorem drain_returns_witness:
  "reachable srv_empty (page ''a'' 2000 [(1, 2000, ThrottleExpired 0)] 2
      \<lparr>lastArgs = None, lastCallTime = Some 0, lastInvokeTime = 0, timerId = Some 1\<rparr> [(0, ''a'')])
   \<and> next_due \<lparr>clock = 2000, pending = [(1, 2000, ThrottleExpired 0)], next_handle = 2\<rparr> = Some 1
   \<and> (\<exists>s'. drain (page ''a'' 2000 [(1, 2000, ThrottleExpired 0)] 2
      \<lparr>lastArgs = None, lastCallTime = Some 0, lastInvokeTime = 0, timerId = Some 1\<rparr> [(0, ''a'')]) = Some s'
        \<and> next_due (timers s') = None)"
proof -
  let ?th1 = "\<lparr>lastArgs = None, lastCallTime = Some 0, lastInvokeTime = 0, timerId = Some 1\<rparr> :: string throttle"
  let ?p = "[(1, 2000, ThrottleExpired 0)]"
  have a1: "sys_step srv_empty (sys_init 0) (page ''a'' 0 ?p 2 ?th1 [(0, ''a'')])"
    using sys_step.type [of "sys_init 0" srv_empty "''a''"] run_s1 by (simp add: sys_init_def)
  have a2: "sys_step srv_empty (page ''a'' 0 ?p 2 ?th1 [(0, ''a'')]) (page ''a'' 2000 ?p 2 ?th1 [(0, ''a'')])"
    using sys_step.tick [of 2000 srv_empty "page ''a'' 0 ?p 2 ?th1 [(0, ''a'')]"] by (simp add: advance_def)
  have r: "reachable srv_empty (page ''a'' 2000 ?p 2 ?th1 [(0, ''a'')])"
    by (rule reachable.step [OF reachable.step [OF reachable.init a1] a2])
  have d: "next_due \<lparr>clock = 2000, pending = ?p, next_handle = 2\<rparr> = Some 1"
    by (simp add: next_due_def)
  from drain_returns [OF r] r d show ?thesis by auto
qed

theorem reachable_error_kinds_witness:
  "reachable srv_empty (render (onSearch_settle ''r'' Rejected
      ((render (onChangeText ''r'' (sys_init 0)))\<lparr>inflight := []\<rparr>)))
   \<and> error (st (render (onSearch_settle ''r'' Rejected
      ((render (onChangeText ''r'' (sys_init 0)))\<lparr>inflight := []\<rparr>)))) = Some GENERIC_ERROR"
proof -
  let ?s1 = "render (onChangeText ''r'' (sys_init 0))"
  let ?s2 = "render (onSearch_settle ''r'' Rejected (?s1\<lparr>inflight := []\<rparr>))"
  have r1: "reachable srv_empty ?s1"
    by (rule reachable.step [OF reachable.init sys_step.type]) (simp add: sys_init_def)
  have "sys_step srv_empty ?s1 (render (onSearch_settle ''r'' Rejected (?s1\<lparr>inflight := remove1 (0, ''r'') (inflight ?s1)\<rparr>)))"
    by (rule sys_step.settle) (simp_all add: run1_inflight [simplified] outcome_ok_def)
  then have "sys_step srv_empty ?s1 ?s2" by (simp only: run1_inflight remove1.simps simp_thms if_True)
  with r1 have r2: "reachable srv_empty ?s2" by (rule reachable.step)
  have m: "mounted ?s1"
    by (simp add: onChangeText_def onSearchThrottled_def sys_init_def split_beta Let_def run_search_def
        onSearch_def fetchIssues_def split: option.splits)
  have "error (st ?s2) = Some GENERIC_ERROR"
    using m by (simp add: onSearch_settle_def dispatch_def)
  moreover have "error (st ?s2) = None \<or> error (st ?s2) = Some GENERIC_ERROR \<or> error (st ?s2) = Some RATE_LIMIT_ERROR"
    using r2 by (rule reachable_error_kinds)
  ultimately show ?thesis using r2 by blast
qed

end
