(* ===== verification/View.thy ===== *)
theory View
  imports Controller
begin

text \<open>
  What the page shows. \<open>useAutocomplete\<close> returns four fields of the controller's
  state and its two handlers; \<open>App\<close> (\<open>components/App.jsx\<close>) passes them to
  \<open>Autocomplete\<close>; \<open>Autocomplete_view\<close> is what \<open>Autocomplete.jsx\<close> renders from
  them and from its own \<open>highlightedIndex\<close>: the input's value and ARIA flags, the
  alert with the error's message, and the list box with one \<open>Item\<close> per item;
  \<open>Item_view\<close> is what \<open>Item.jsx\<close> renders of one item. The lemmas tie the
  conditions the other theories use (\<open>Keyboard.list_visible\<close>,
  \<open>Keyboard.option_highlighted\<close>) to this rendering, and follow the page's events
  (a response, the keys, blur, a click through the browser's mousedown, blur and click
  order) to what the page shows after them.
\<close>

text \<open>The object \<open>useAutocomplete()\<close> returns; its handlers are the controller's.\<close>

record hook_result =
  hr_error :: "error_info option"
  hr_items :: "item list"
  hr_text :: string
  hr_onChangeText :: "string \<Rightarrow> sys \<Rightarrow> sys"
  hr_onSelect :: "selected \<Rightarrow> sys \<Rightarrow> sys"
  hr_isPristine :: bool

definition useAutocomplete :: "sys \<Rightarrow> hook_result" where
  "useAutocomplete s =
     \<lparr>hr_error = error (st s), hr_items = items (st s), hr_text = search_text (st s),
      hr_onChangeText = onChangeText, hr_onSelect = onSelect,
      hr_isPristine = isPristine (st s)\<rparr>"

record autocomplete_props =
  ac_error :: "error_info option"
  ac_items :: "item list"
  ac_onSelect :: "selected \<Rightarrow> sys \<Rightarrow> sys"
  ac_onChangeText :: "string \<Rightarrow> sys \<Rightarrow> sys"
  ac_text :: string
  ac_isPristine :: bool

definition App :: "sys \<Rightarrow> autocomplete_props" where
  "App s =
     (let r = useAutocomplete s
      in \<lparr>ac_error = hr_error r, ac_items = hr_items r, ac_onSelect = hr_onSelect r,
          ac_onChangeText = hr_onChangeText r, ac_text = hr_text r,
          ac_isPristine = hr_isPristine r\<rparr>)"

text \<open>
  One rendered \<open>Item\<close>: \<open>aria-selected\<close> (and the \<open>--selected\<close> class), the icon's
  title and whether it has the \<open>--open\<close> class (else \<open>--closed\<close>), the title, and
  for each label its chip: the text and \<open>title\<close> (both \<open>label.name\<close>) and the
  \<open>backgroundColor\<close> (\<open>label.color\<close>).
\<close>

record item_view =
  option_selected :: bool
  icon_title :: string
  icon_open :: bool
  item_title :: string
  label_chips :: "(string \<times> string) list"

definition Item_view :: "item \<Rightarrow> bool \<Rightarrow> item_view" where
  "Item_view it isHighlighted =
     \<lparr>option_selected = isHighlighted,
      icon_title = (if isOpen it then ''Open'' else ''Closed''),
      icon_open = isOpen it,
      item_title = title it,
      label_chips = map (\<lambda>l. (label_name l, color l)) (labels it)\<rparr>"

record view =
  input_value :: string
  aria_expanded :: bool
  aria_invalid :: bool
  alert :: "string option"
  listbox :: "item_view list option"

definition Autocomplete_view :: "autocomplete_props \<Rightarrow> int \<Rightarrow> view" where
  "Autocomplete_view p h =
     \<lparr>input_value = ac_text p, aria_expanded = hasItems (ac_items p),
      aria_invalid = (ac_error p \<noteq> None), alert = map_option message (ac_error p),
      listbox =
        (if ac_error p = None \<and> \<not> ac_isPristine p \<and> hasItems (ac_items p)
         then Some (map (\<lambda>(i, it). Item_view it (h = int i)) (enumerate 0 (ac_items p)))
         else None)\<rparr>"

definition page_view :: "sys \<Rightarrow> view" where
  "page_view s = Autocomplete_view (App s) (highlightedIndex s)"

text \<open>\<open>index.jsx\<close>: \<open>ReactDOM.render(<App />, root)\<close> at time \<open>t\<close>, the page it shows.\<close>

definition index_root :: "timestamp \<Rightarrow> view" where
  "index_root t = page_view (sys_init t)"

text \<open>
  The pointer on an option. A DOM event carries its \<open>defaultPrevented\<close> flag;
  \<open>Item\<close>'s \<open>onMouseDown\<close> handler \<open>onPreventDefault\<close> sets it. A click is a
  mousedown and a mouseup on the option (HTML and UI Events): after the mousedown
  handler, unless it prevented the default, the default action moves the focus off the
  input, whose blur handler runs (and the page renders) before the click; the click
  then reaches the option if it is still rendered.
\<close>

record dom_event =
  defaultPrevented :: bool

definition onPreventDefault :: "dom_event \<Rightarrow> dom_event" where
  "onPreventDefault e = e\<lparr>defaultPrevented := True\<rparr>"

definition pointer_click :: "(dom_event \<Rightarrow> dom_event) \<Rightarrow> nat \<Rightarrow> sys \<Rightarrow> sys" where
  "pointer_click onMouseDown i s =
     (let s1 = (if defaultPrevented (onMouseDown \<lparr>defaultPrevented = False\<rparr>) then s else render (blur s))
      in if list_visible (st s1) \<and> i < length (items (st s1))
         then render (onSelectProxy (items (st s1) ! i) s1) else s1)"

text \<open>An issue as the search returns it, and the page showing its item after typing.\<close>

abbreviation raw_bug :: raw_issue where
  "raw_bug \<equiv> \<lparr>raw_id = 7, raw_title = ''Bug'', raw_state = ''open'',
     raw_labels = Some [\<lparr>raw_label_id = 1, raw_label_name = ''bug'', raw_label_color = Some ''d73a4a''\<rparr>]\<rparr>"

abbreviation item_bug :: item where
  "item_bug \<equiv> \<lparr>item_id = 7, title = ''Bug'', isOpen = True,
     labels = [\<lparr>label_id = 1, label_name = ''bug'', color = ''#d73a4a''\<rparr>]\<rparr>"

abbreviation shown :: sys where
  "shown \<equiv> (sys_init 0)\<lparr>st := initialState\<lparr>search_text := ''bu'', items := [item_bug], isPristine := False\<rparr>\<rparr>"

subsection \<open>The rendering and the controller's state\<close>

lemma App_fields [simp]:
  "ac_error (App s) = error (st s)" "ac_items (App s) = items (st s)"
  "ac_text (App s) = search_text (st s)" "ac_isPristine (App s) = isPristine (st s)"
  "ac_onSelect (App s) = onSelect" "ac_onChangeText (App s) = onChangeText"
  by (simp_all add: App_def useAutocomplete_def)

lemma listbox_page_view:
  "listbox (page_view s) =
     (if list_visible (st s)
      then Some (map (\<lambda>(i, it). Item_view it (option_highlighted (highlightedIndex s) i))
                     (enumerate 0 (items (st s))))
      else None)"
  by (simp add: page_view_def Autocomplete_view_def list_visible_def option_highlighted_def)

lemma listbox_option_highlighted:
  assumes "listbox (page_view s) = Some opts" and "i < length opts"
  shows "opts ! i = Item_view (items (st s) ! i) (option_highlighted (highlightedIndex s) i)"
    and "length opts = length (items (st s))"
  using assms by (auto simp: listbox_page_view nth_enumerate_eq split: if_splits)

lemma alert_page_view:
  "alert (page_view s) = map_option message (error (st s))"
  by (simp add: page_view_def Autocomplete_view_def)

lemma input_value_page_view:
  "input_value (page_view s) = search_text (st s)"
  by (simp add: page_view_def Autocomplete_view_def)

lemma index_root_empty:
  "index_root t = \<lparr>input_value = [], aria_expanded = False, aria_invalid = False,
                    alert = None, listbox = None\<rparr>"
  by (simp add: index_root_def page_view_def Autocomplete_view_def sys_init_def initialState_def
      hasItems_def)

subsection \<open>What the page shows after its events\<close>

text \<open>C31: clicking a shown option with Item's mousedown handler selects it, as the click rule of the page's step relation says: its title goes into the input and the list box is hidden.\<close>

theorem click_selects_option:
  assumes "list_visible (st s)" and "i < length (items (st s))" and "mounted s"
  shows "pointer_click onPreventDefault i s = render (onSelectProxy (items (st s) ! i) s)
     \<and> input_value (page_view (pointer_click onPreventDefault i s)) = title (items (st s) ! i)
     \<and> listbox (page_view (pointer_click onPreventDefault i s)) = None"
  using assms
  by (simp add: pointer_click_def onPreventDefault_def onSelect_def dispatch_def
      input_value_page_view listbox_page_view list_visible_def hasItems_def)

text \<open>Without the handler the input's blur comes first and dismisses the list, and the click is lost.\<close>

lemma click_without_preventDefault:
  assumes "list_visible (st s)" and "mounted s"
  shows "pointer_click id i s = render (blur s)"
  using assms
  by (simp add: pointer_click_def blur_def onDismiss_def onSelect_def dispatch_def list_visible_def hasItems_def)


lemma st_key_down_dismiss:
  assumes "mounted s" and "hasItems (items (st s))"
  shows "key_down ESCAPE s = s\<lparr>highlightedIndex := - 1,
           st := (st s)\<lparr>items := [], isPristine := True\<rparr>\<rparr>"
    and "blur s = s\<lparr>highlightedIndex := - 1, st := (st s)\<lparr>items := [], isPristine := True\<rparr>\<rparr>"
  using assms by (simp_all add: key_down_def blur_def onKeyDown_def onDismiss_def onSelect_def
      dispatch_def ESCAPE_def ENTER_def DOWN_ARROW_def UP_ARROW_def)

text \<open>C30: Escape or blur on a shown list hides it, keeps the typed text in the input and resets the highlight.\<close>

theorem dismiss_hides_list:
  assumes "mounted s" and "listbox (page_view s) \<noteq> None"
  shows "listbox (page_view (key_down ESCAPE s)) = None
     \<and> input_value (page_view (key_down ESCAPE s)) = input_value (page_view s)
     \<and> highlightedIndex (key_down ESCAPE s) = - 1
     \<and> listbox (page_view (blur s)) = None
     \<and> input_value (page_view (blur s)) = input_value (page_view s)
     \<and> highlightedIndex (blur s) = - 1"
proof -
  have "hasItems (items (st s))"
    using assms(2) by (simp add: listbox_page_view list_visible_def split: if_splits)
  then show ?thesis
    using assms(1) by (simp add: st_key_down_dismiss listbox_page_view input_value_page_view list_visible_def)
qed

text \<open>C32: on a shown list with no highlight, Down marks exactly the first option selected, and Enter then puts its title in the input and hides the list.\<close>

theorem keyboard_selects_first:
  assumes "mounted s" and "listbox (page_view s) \<noteq> None" and "highlightedIndex s = - 1"
  shows "listbox (page_view (key_down DOWN_ARROW s)) =
           Some (map (\<lambda>(i, it). Item_view it (i = 0)) (enumerate 0 (items (st s))))
     \<and> input_value (page_view (key_down ENTER (key_down DOWN_ARROW s))) = title (hd (items (st s)))
     \<and> listbox (page_view (key_down ENTER (key_down DOWN_ARROW s))) = None"
proof -
  have vis: "list_visible (st s)" and ne: "items (st s) \<noteq> []"
    using assms(2) by (auto simp: listbox_page_view list_visible_def hasItems_def split: if_splits)
  have down: "key_down DOWN_ARROW s = s\<lparr>highlightedIndex := 0\<rparr>"
    using assms(3) ne by (simp add: key_down_def onKeyDown_def DOWN_ARROW_def)
  have enter: "key_down ENTER (s\<lparr>highlightedIndex := 0\<rparr>) =
      s\<lparr>highlightedIndex := - 1, st := (st s)\<lparr>search_text := title (hd (items (st s))), items := [], isPristine := True\<rparr>\<rparr>"
    using assms(1) ne by (simp add: key_down_def onKeyDown_def onSelect_def dispatch_def
        ENTER_def DOWN_ARROW_def UP_ARROW_def hd_conv_nth)
  show ?thesis
    using vis by (simp add: down enter listbox_page_view input_value_page_view list_visible_def
        option_highlighted_def)
qed

text \<open>C9: after a successful response with items to a typed query, the page lists every item as an Item, in order, with the highlight it had.\<close>

theorem page_shows_results:
  assumes "status resp = 200" and "formatIssues p = Inr its" and "its \<noteq> []"
      and "mounted s" and "\<not> isPristine (st s)"
  shows "listbox (page_view (onSearch_settle t (Resolved resp p) s)) =
           Some (map (\<lambda>(i, it). Item_view it (highlightedIndex s = int i)) (enumerate 0 its))"
  using assms
  by (simp add: listbox_page_view list_visible_def hasItems_def option_highlighted_def
      onSearch_settle_def handleRateLimit_def dispatch_def Let_def)

text \<open>C35: each item of a formatted response renders with its issue's title, Open or Closed by its state, and one chip per label with its name and its colour behind a hash sign.\<close>

theorem rendered_issues:
  assumes "formatIssues p = Inr its"
  shows "\<exists>rs. raw_items p = Some rs \<and> list_all (\<lambda>r. raw_labels r \<noteq> None) rs \<and>
     map (\<lambda>it. Item_view it b) its =
       map (\<lambda>r. \<lparr>option_selected = b,
                  icon_title = (if raw_state r = ''open'' then ''Open'' else ''Closed''),
                  icon_open = (raw_state r = ''open''), item_title = raw_title r,
                  label_chips = map (\<lambda>l. (raw_label_name l,
                       CHR ''#'' # (case raw_label_color l of None \<Rightarrow> ''undefined'' | Some c \<Rightarrow> c)))
                     (the (raw_labels r))\<rparr>) rs"
  using assms
  by (auto simp: formatIssues_def map_issues_spec Item_view_def format_issue_total_def
      format_label_def split: option.splits if_splits)

lemma formatIssues_bug: "formatIssues \<lparr>raw_items = Some [raw_bug]\<rparr> = Inr [item_bug]"
  by (simp add: formatIssues_def format_issue_def format_label_def)

lemma shown_visible: "listbox (page_view shown) \<noteq> None"
  by (simp add: listbox_page_view list_visible_def hasItems_def sys_init_def initialState_def)

theorem dismiss_hides_list_witness:
  "listbox (page_view (key_down ESCAPE shown)) = None \<and> input_value (page_view (blur shown)) = ''bu''"
  using dismiss_hides_list [OF _ shown_visible] by (simp add: sys_init_def input_value_page_view)

theorem keyboard_selects_first_witness:
  "input_value (page_view (key_down ENTER (key_down DOWN_ARROW shown))) = ''Bug''"
  using keyboard_selects_first [OF _ shown_visible] by (simp add: sys_init_def)

theorem page_shows_results_witness:
  "listbox (page_view (onSearch_settle ''bu'' (Resolved \<lparr>status = 200, headers = Map.empty\<rparr>
      \<lparr>raw_items = Some [raw_bug]\<rparr>) ((sys_init 0)\<lparr>st := initialState\<lparr>search_text := ''bu'', isPristine := False\<rparr>\<rparr>)))
   = Some [\<lparr>option_selected = False, icon_title = ''Open'', icon_open = True, item_title = ''Bug'',
            label_chips = [(''bug'', ''#d73a4a'')]\<rparr>]"
  using page_shows_results [OF _ formatIssues_bug, of "\<lparr>status = 200, headers = Map.empty\<rparr>"
      "(sys_init 0)\<lparr>st := initialState\<lparr>search_text := ''bu'', isPristine := False\<rparr>\<rparr>" "''bu''"]
  by (simp add: sys_init_def Item_view_def)

theorem rendered_issues_witness:
  "Item_view item_bug True = \<lparr>option_selected = True, icon_title = ''Open'', icon_open = True,
      item_title = ''Bug'', label_chips = [(''bug'', ''#d73a4a'')]\<rparr>"
  using rendered_issues [OF formatIssues_bug, of True] by simp


theorem click_selects_option_witness:
  "input_value (page_view (pointer_click onPreventDefault 0 shown)) = ''Bug''"
proof -
  have h: "list_visible (st shown)" "0 < length (items (st shown))" "mounted shown"
    by (simp_all add: sys_init_def initialState_def list_visible_def hasItems_def)
  have "input_value (page_view (pointer_click onPreventDefault 0 shown)) = title (items (st shown) ! 0)"
    using click_selects_option [OF h] by (rule conjunct1 [OF conjunct2])
  then show ?thesis by simp
qed

end
