(* ===== verification/Shown.thy ===== *)
theory Shown
  imports Runs View
begin

text \<open>
  Where the list the page shows comes from. The items of the controller's state are
  empty or the formatted answer of the server to some query (\<open>items_served\<close>), an
  invariant of every reachable state by rule induction on \<open>Controller.sys_step\<close>,
  together with \<open>Page.cache_sound\<close>: the only writers of \<open>items\<close> are \<open>setItems\<close>,
  from a cache hit of \<open>onSearch\<close> or from a 200 response in \<open>onSearch_settle\<close>, and
  \<open>selectItem\<close>, which empties them. So every list the page shows is a formatted
  server answer, each option rendered by \<open>Item\<close> from it.
\<close>

definition items_served :: "(string \<Rightarrow> search_payload) \<Rightarrow> sys \<Rightarrow> bool" where
  "items_served srv s \<longleftrightarrow> items (st s) = [] \<or> (\<exists>t. formatIssues (srv t) = Inr (items (st s)))"

subsection \<open>The handlers keep the items served\<close>

lemma items_served_frame: "items_served srv s0 \<Longrightarrow> items (st s) = items (st s0) \<Longrightarrow> items_served srv s"
  by (simp add: items_served_def)

lemma items_served_dispatch:
  assumes "items_served srv s"
    and "\<forall>its. a = setItems its \<longrightarrow> its = [] \<or> (\<exists>t. formatIssues (srv t) = Inr its)"
  shows "items_served srv (dispatch a s)"
  using assms by (cases a) (auto simp: items_served_def dispatch_def)

lemma items_st_frame [simp]:
  "items (st (setDismissableError err ms s)) = items (st s)"
  "items (st (handleRateLimit resp s)) = items (st s)"
  "items (st (fetchIssues t s)) = items (st s)"
  by (simp_all add: setDismissableError_def handleRateLimit_def fetchIssues_def dispatch_def
      Let_def split_beta)

lemma items_served_upd [simp]:
  "items_served srv (s\<lparr>cache := C\<rparr>) = items_served srv s"
  "items_served srv (s\<lparr>throttles := X, timers := Y\<rparr>) = items_served srv s"
  "items_served srv (s\<lparr>timers := Y\<rparr>) = items_served srv s"
  "items_served srv (s\<lparr>inflight := F\<rparr>) = items_served srv s"
  "items_served srv (s\<lparr>highlightedIndex := h\<rparr>) = items_served srv s"
  "items_served srv (render s) = items_served srv s"
  by (simp_all add: items_served_def)

lemma items_served_onSearch:
  assumes "cache_sound srv s" and "items_served srv s"
  shows "items_served srv (onSearch snap t s)"
proof (cases "t = [] \<or> cache s t \<noteq> None")
  case True
  have "its = [] \<or> (\<exists>t. formatIssues (srv t) = Inr its)" if "cache s t = Some its" for its
    using assms(1) that by (auto simp: cache_sound_def)
  with True assms(2) show ?thesis
    by (auto simp: onSearch_def intro!: items_served_dispatch split: option.splits)
next
  case False
  with assms(2) show ?thesis
    by (auto simp: onSearch_def Let_def intro: items_served_frame)
qed

lemma items_served_onSearch_settle:
  assumes "outcome_ok srv t out" and "items_served srv s"
  shows "items_served srv (onSearch_settle t out s)"
proof -
  have h: "items_served srv (handleRateLimit resp s)" for resp
    using assms(2) by (rule items_served_frame) simp
  then show ?thesis
    using assms by (auto simp: onSearch_settle_def Let_def outcome_ok_def intro!: items_served_dispatch
        intro: items_served_frame split: fetch_outcome.splits sum.splits)
qed

lemma items_served_run_search:
  assumes "cache_sound srv s0" and "items_served srv s0" and "st s = st s0" and "cache s = cache s0"
  shows "items_served srv (run_search k c s)"
proof -
  have "cache_sound srv s" "items_served srv s"
    using assms by (simp_all add: cache_sound_def items_served_def)
  then show ?thesis by (simp add: run_search_def items_served_onSearch split: option.splits)
qed

lemma items_served_onChangeText:
  assumes "cache_sound srv s" and "items_served srv s"
  shows "items_served srv (onChangeText t s)"
proof -
  have c: "cache_sound srv (dispatch (changeText t) s)"
    using assms(1) by (simp add: cache_sound_def)
  have i: "items_served srv (dispatch (changeText t) s)"
    using assms(2) by (simp add: items_served_dispatch)
  show ?thesis
    unfolding onChangeText_def onSearchThrottled_def Let_def split_beta
    by (rule items_served_run_search [OF c i]) simp_all
qed

lemma items_served_run_timer:
  assumes "cache_sound srv s" and "items_served srv s"
  shows "items_served srv (run_timer cb s)"
proof (cases cb)
  case DismissError
  then show ?thesis using assms(2) by (simp add: run_timer_def items_served_dispatch)
next
  case (ThrottleExpired k)
  show ?thesis
  proof (cases "k < length (throttles s)")
    case True
    show ?thesis
      unfolding ThrottleExpired run_timer_def using True
      by (simp add: Let_def split_beta) (rule items_served_run_search [OF assms]; simp)
  qed (simp add: ThrottleExpired run_timer_def assms(2))
qed

lemma items_served_onSelect: "items_served srv s \<Longrightarrow> items_served srv (onSelect x s)"
  by (simp add: onSelect_def items_served_dispatch)

lemma items_served_key_down: "items_served srv s \<Longrightarrow> items_served srv (key_down k s)"
  by (simp add: key_down_def Let_def split_beta items_served_onSelect split: option.splits)

lemma items_served_blur: "items_served srv s \<Longrightarrow> items_served srv (blur s)"
  by (simp add: blur_def Let_def split_beta items_served_onSelect split: option.splits)

lemma items_served_unmount: "items_served srv s \<Longrightarrow> items_served srv (unmount s)"
  by (simp add: unmount_def items_served_def split_beta)

lemma items_served_step:
  assumes "sys_step srv s s'" and "cache_sound srv s" and "items_served srv s"
  shows "items_served srv s'"
  using assms
proof (induction rule: sys_step.induct)
  case (settle n t s out)
  then show ?case by (simp add: items_served_onSearch_settle)
qed (simp_all add: items_served_onChangeText items_served_key_down items_served_blur
       items_served_onSelect items_served_run_timer items_served_unmount cache_sound_def)

lemma reachable_items_served: "reachable srv s \<Longrightarrow> items_served srv s"
proof (induction rule: reachable.induct)
  case (init t)
  then show ?case by (simp add: items_served_def sys_init_def initialState_def)
next
  case (step s s')
  then show ?case by (blast intro: items_served_step reachable_cache_sound_inv)
qed

lemma formatIssues_label_hash:
  assumes "formatIssues p = Inr its" and "it \<in> set its" and "l \<in> set (labels it)"
  shows "hd (color l) = CHR ''#''"
  using assms by (auto simp: formatIssues_def map_issues_spec format_issue_total_def
      format_label_color_hash split: option.splits if_splits)

subsection \<open>What a reachable page shows\<close>

text \<open>C10: in every reachable page state, a list the page shows is the formatted answer of the server to some query, each option rendered by Item from it, and every label chip's colour starts with a hash sign.\<close>

theorem reachable_list_from_server:
  assumes "reachable srv s" and "listbox (page_view s) = Some opts"
  shows "\<exists>t its. formatIssues (srv t) = Inr its
     \<and> opts = map (\<lambda>(i, it). Item_view it (option_highlighted (highlightedIndex s) i)) (enumerate 0 its)
     \<and> (\<forall>v\<in>set opts. \<forall>(n, c)\<in>set (label_chips v). hd c = CHR ''#'')"
proof -
  have vis: "list_visible (st s)"
    and opts: "opts = map (\<lambda>(i, it). Item_view it (option_highlighted (highlightedIndex s) i))
                        (enumerate 0 (items (st s)))"
    using assms(2) by (simp_all add: listbox_page_view split: if_splits)
  from vis have "items (st s) \<noteq> []" by (simp add: list_visible_def hasItems_def)
  with reachable_items_served [OF assms(1)]
  obtain t where t: "formatIssues (srv t) = Inr (items (st s))" by (auto simp: items_served_def)
  have "\<forall>v\<in>set opts. \<forall>(n, c)\<in>set (label_chips v). hd c = CHR ''#''"
    using formatIssues_label_hash [OF t]
    by (auto simp: opts Item_view_def in_set_enumerate_eq) (meson nth_mem)
  with t opts show ?thesis by blast
qed

theorem reachable_list_from_server_witness:
  "let srv = (\<lambda>_. \<lparr>raw_items = Some [raw_bug]\<rparr>);
       s = render (onSearch_settle ''bu'' (Resolved ok200 (srv ''bu''))
             ((render (onChangeText ''bu'' (sys_init 0)))\<lparr>inflight := []\<rparr>))
   in listbox (page_view s) = Some [Item_view item_bug False]
      \<and> (\<exists>t its. formatIssues (srv t) = Inr its
           \<and> [Item_view item_bug False] = map (\<lambda>(i, it). Item_view it (option_highlighted (highlightedIndex s) i)) (enumerate 0 its)
           \<and> (\<forall>v\<in>set [Item_view item_bug False]. \<forall>(n, c)\<in>set (label_chips v). hd c = CHR ''#''))"
proof -
  let ?srv = "\<lambda>_::string. \<lparr>raw_items = Some [raw_bug]\<rparr>"
  let ?s = "render (onSearch_settle ''bu'' (Resolved ok200 (?srv ''bu''))
             ((render (onChangeText ''bu'' (sys_init 0)))\<lparr>inflight := []\<rparr>))"
  have r: "reachable ?srv ?s" by (rule fresh_run_reachable) simp
  have l: "listbox (page_view ?s) = Some [Item_view item_bug False]"
    by (simp add: type_fresh_page listbox_page_view list_visible_def hasItems_def option_highlighted_def
        onSearch_settle_def handleRateLimit_def dispatch_def Let_def formatIssues_bug)
  from reachable_list_from_server [OF r l] show ?thesis
    by (simp add: l Let_def)
qed

end
