(* ===== verification/Fetch.thy ===== *)
theory Fetch
  imports Controller
begin

text \<open>
  The search request of \<open>fetchIssues\<close> (\<open>utils/api.js\<close>) against the browser's
  \<open>fetch\<close>: the request it builds (URL and \<open>Accept\<close> header), the two awaits
  (\<open>fetch\<close>, then \<open>response.json()\<close>), either of which may reject, and the value
  \<open>{response, data}\<close> it resolves to. The network and the JSON parser are parameters:
  \<open>fetch\<close> maps a request to the response and its body text, or rejects
  (\<open>None\<close>); \<open>json\<close> parses a body, or rejects. What \<open>onSearch\<close> awaits is the
  outcome of the page's settle event, so the lemmas connect this model to the step
  relation of \<open>Controller\<close>: its outcomes are the ones the settle rule allows, and
  both rejections end in \<open>onSearch\<close>'s \<open>catch\<close>.
\<close>

record http_request =
  req_url :: string
  req_accept :: string

type_synonym fetch_fn = "http_request \<Rightarrow> (response \<times> string) option"
type_synonym json_fn = "string \<Rightarrow> search_payload option"

definition issues_request :: "string \<Rightarrow> http_request" where
  "issues_request text = \<lparr>req_url = search_url text, req_accept = accept_header\<rparr>"

definition fetchIssues_io :: "fetch_fn \<Rightarrow> json_fn \<Rightarrow> string \<Rightarrow> (response \<times> search_payload) option" where
  "fetchIssues_io fetch json text =
     (case fetch (issues_request text) of
        None \<Rightarrow> None
      | Some (response, body) \<Rightarrow>
          (case json body of None \<Rightarrow> None | Some data \<Rightarrow> Some (response, data)))"

text \<open>\<open>const { response, data } = await fetchIssues(text)\<close>: a rejection goes to the \<open>catch\<close>.\<close>

definition await_fetchIssues :: "(response \<times> search_payload) option \<Rightarrow> fetch_outcome" where
  "await_fetchIssues r = (case r of None \<Rightarrow> Rejected | Some (response, data) \<Rightarrow> Resolved response data)"

subsection \<open>The request and its outcomes\<close>

lemma issues_request_query:
  "drop (length search_url_prefix) (req_url (issues_request t)) = t
   \<and> take (length search_url_prefix) (req_url (issues_request t)) = search_url_prefix
   \<and> req_accept (issues_request t) = ''application/vnd.github.v3+json''"
  by (simp add: issues_request_def search_url_def accept_header_def)

lemma issues_request_inj: "issues_request t = issues_request t' \<longleftrightarrow> t = t'"
  by (simp add: issues_request_def search_url_def)

lemma fetchIssues_io_None:
  "fetchIssues_io fetch json t = None \<longleftrightarrow>
     fetch (issues_request t) = None
     \<or> (\<exists>resp body. fetch (issues_request t) = Some (resp, body) \<and> json body = None)"
  by (auto simp: fetchIssues_io_def split: option.splits)

lemma await_fetchIssues_Resolved:
  "fetch (issues_request t) = Some (resp, body) \<Longrightarrow> json body = Some data \<Longrightarrow>
   await_fetchIssues (fetchIssues_io fetch json t) = Resolved resp data"
  by (simp add: fetchIssues_io_def await_fetchIssues_def)

text \<open>
  A server that answers each query's URL with status 200 and the search results
  \<open>srv t\<close> produces only outcomes that the settle rule of \<open>Controller.sys_step\<close>
  allows for \<open>srv\<close>; any other status, any headers and both rejections are allowed.
\<close>

lemma fetch_outcome_ok:
  assumes "\<And>resp body data. fetch (issues_request t) = Some (resp, body) \<Longrightarrow> json body = Some data \<Longrightarrow>
             status resp = 200 \<Longrightarrow> data = srv t"
  shows "outcome_ok srv t (await_fetchIssues (fetchIssues_io fetch json t))"
  using assms by (auto simp: fetchIssues_io_def await_fetchIssues_def outcome_ok_def split: option.splits)

text \<open>C12: when fetch rejects or response.json() rejects, the await in onSearch ends in its catch: the page shows the generic error and nothing else changes, no timer, no cache entry, the items kept.\<close>

theorem fetch_failure_generic_error:
  assumes "mounted s"
    and "fetch (issues_request t) = None
         \<or> (\<exists>resp body. fetch (issues_request t) = Some (resp, body) \<and> json body = None)"
  shows "onSearch_settle t (await_fetchIssues (fetchIssues_io fetch json t)) s
           = s\<lparr>st := (st s)\<lparr>error := Some GENERIC_ERROR\<rparr>\<rparr>"
proof -
  from assms(2) have "fetchIssues_io fetch json t = None" by (simp add: fetchIssues_io_None)
  with assms(1) show ?thesis
    by (simp add: await_fetchIssues_def onSearch_settle_def dispatch_def)
qed

theorem fetch_failure_generic_error_witness:
  "onSearch_settle ''bu'' (await_fetchIssues (fetchIssues_io (\<lambda>_. Some (\<lparr>status = 200, headers = Map.empty\<rparr>, ''<html>''))
       (\<lambda>_. None) ''bu'')) (sys_init 0)
   = (sys_init 0)\<lparr>st := initialState\<lparr>error := Some GENERIC_ERROR\<rparr>\<rparr>"
  using fetch_failure_generic_error [of "sys_init 0" "\<lambda>_. Some (\<lparr>status = 200, headers = Map.empty\<rparr>, ''<html>'')"
      "''bu''" "\<lambda>_. None"]
  by (simp add: sys_init_def)

end
