(* ===== verification/Spec2Isabelle.thy ===== *)
theory Spec2Isabelle
  imports EventLoop Shown Fetch
begin

text \<open>
  \<^bold>\<open>Verification library of autocomplete-github-issues.\<close>
  The program is a React search-as-you-type widget for GitHub issues
  (\<open>src/src\<close>). Its parts: the controller hook \<open>useAutocomplete\<close>
  (\<open>components/Autocomplete/useAutocomplete.js\<close>) with its reducer, its result
  cache \<open>useCache\<close> (\<open>hooks/useCache.js\<close>), its dismissal timer
  \<open>useLazyTimeout\<close> (\<open>hooks/useLazyTimeout.js\<close>) and a \<open>lodash/throttle\<close>
  around its search; the API helpers \<open>fetchIssues\<close>, \<open>getRateLimits\<close> and
  \<open>formatIssues\<close> (\<open>utils/api.js\<close>); the widget \<open>Autocomplete.jsx\<close> with its
  keyboard hook \<open>useAutocompleteState\<close>, and \<open>Item.jsx\<close>. Typing calls the
  throttled search; the search answers from the cache, refuses while rate-limited,
  or sends a request; when the request settles, the response's headers update the
  rate limits, and its items are formatted, cached and shown, or an error is shown
  and, for the rate-limit error, cleared later by the dismissal timer.

  \<^bold>\<open>Theories.\<close>
  \<^item> \<open>Prelude\<close>: JavaScript numbers as \<open>jsnum\<close> (an integer or \<open>NaN\<close>, with
    \<open>NaN\<close> comparisons false), \<open>ToInt32\<close> as \<open>sint\<close> of a \<open>32 word\<close>, the delay
    \<open>timer_delay\<close> of \<open>setTimeout\<close>, shared lemmas on lists and maps.
  \<^item> \<open>Api\<close>: \<open>parseInt(_, 10)\<close> (from the ECMAScript specification),
    \<open>getRateLimits\<close> with \<open>Date.now()\<close> as an argument, \<open>formatIssues\<close> over the
    payload fields it reads (a missing array is the value \<open>Inl TypeError\<close>), the
    request URL of \<open>fetchIssues\<close>. Lemmas: integer headers read back by
    \<open>parseInt\<close>, the rate limits of integer and of missing headers,
    \<open>formatIssues\<close> equal to a specification by cases, the \<open>#\<close> of label colours.
  \<^item> \<open>Reducer\<close>: the state, the action creators as a datatype and
    \<open>autocompleteReducer\<close>; \<open>autocompleteReducer_named\<close> is the source's switch on
    \<open>action.type\<close> against the creators' \<open>.name\<close>, proved equal to the reducer
    with the source names and constant under renamed (minified) names.
  \<^item> \<open>Keyboard\<close>: \<open>onKeyDown\<close>, \<open>onDismiss\<close>, the object
    \<open>useAutocompleteState\<close> returns (through which the page's key and blur events
    reach them) and the render conditions of \<open>Autocomplete.jsx\<close>; highlight
    movement by induction on key sequences.
  \<^item> \<open>LazyTimeout\<close>: the browser's timer list (\<open>setTimeout\<close>,
    \<open>clearTimeout\<close>, firing a due timer, time passing; from the HTML timer
    algorithm) and the hook's \<open>_setTimeout\<close>, \<open>_clearTiemout\<close> and unmount cleanup;
    the inductive \<open>lazy_step\<close>, where other timer users interleave arbitrarily,
    with its invariant \<open>lazy_inv\<close> proved by rule induction: at most one hook
    timer pending, a superseded or unmounted callback never fires, the last one
    fires when due.
  \<^item> \<open>Throttle\<close>: lodash's \<open>debounce\<close> with \<open>leading\<close>, \<open>trailing\<close> and
    \<open>maxWait = wait\<close> (what \<open>throttle\<close> builds; not under \<open>src\<close>, modelled from
    lodash's algorithm) over the same timer list: leading edge, coalescing, trailing
    edge, and two invocations 1 ms apart.
  \<^item> \<open>Controller\<close>: the page state \<open>sys\<close> (reducer state, cache, timers, the
    hook's ref, the throttle instances with the render state their \<open>onSearch\<close>
    closure saw, requests in flight, mounted flag, highlight) and one definition per
    handler: \<open>onSearch\<close> split at its \<open>await\<close> into \<open>onSearch\<close> and
    \<open>onSearch_settle\<close>, \<open>handleRateLimit\<close>, \<open>setDismissableError\<close>,
    \<open>onChangeText\<close>, \<open>onSelect\<close>, the timer callbacks (\<open>run_timer\<close>), the render
    that makes a new throttle when \<open>onSearch\<close>'s dependencies change
    (\<open>render\<close>), and unmount. The inductive \<open>sys_step srv\<close> is the page's
    event loop: typing, keys, blur, click, a due timer, a request settling with an
    outcome of the server \<open>srv\<close> (or a rejection), time passing, unmount;
    \<open>reachable srv\<close> its runs from the first render. Lemmas: the behaviour of
    \<open>onSearch\<close> and of \<open>onSearch_settle\<close> on every branch, errors included; the
    throttle seen from \<open>onChangeText\<close> and from its timer; the dismissal delay and
    the clearing of the rate-limit error once it is due; the fresh throttle that a
    change of \<open>onSearch\<close>'s dependencies builds; the highlight kept across new
    results; a response that settles after unmount.
  \<^item> \<open>Page\<close>: invariants of every reachable state: the cache holds only the
    formatted answer for its own key, and at most one dismissal timer is pending.
    The second is the interface between \<open>Controller\<close> and \<open>LazyTimeout\<close>: each page
    step moves \<open>(lazy, timers)\<close> by a run of \<open>lazy_step\<close> (\<open>sys_step_dsim\<close>), so
    the hook's invariant holds of the page.
  \<^item> \<open>Runs\<close>: concrete runs of \<open>sys_step\<close>: two requests 1 ms apart, and a stale
    response that overwrites the list of the current text (the race that the
    specification leaves as an open question), and a request sent after unmount.
  \<^item> \<open>Trailing\<close>: the invariant \<open>page_inv\<close> of every reachable state, which links each
    throttle instance to its timer in the page's timer list and keeps the handle of
    \<open>useLazyTimeout\<close> off the throttle timers; from it, the liveness of the trailing
    edge: the last text typed is searched at most 2000 ms after its keystroke.
  \<^item> \<open>View\<close>: what the page shows: \<open>useAutocomplete\<close>'s returned object
    (\<open>hook_result\<close>), \<open>App\<close> (\<open>App.jsx\<close>) passing it to \<open>Autocomplete\<close> as
    props, \<open>Autocomplete_view\<close> the input, the alert and the list box that
    \<open>Autocomplete.jsx\<close> renders from them, \<open>Item_view\<close> each option that
    \<open>Item.jsx\<close> renders (\<open>aria-selected\<close>, the Open/Closed icon, the title, the
    label chips and their colours), and \<open>index_root\<close> the first render of
    \<open>index.jsx\<close>. Lemmas follow the page's events to what it shows: a response's
    items listed in order with the highlight kept, a formatted issue rendered from the
    raw payload, Escape and blur hiding the list, Down and Enter selecting the first
    option, and a click selecting its option because \<open>Item\<close>'s mousedown handler
    \<open>onPreventDefault\<close> keeps the input's blur from running first
    (\<open>pointer_click\<close>, the browser's event order, from the HTML and UI Events
    specifications).
  \<^item> \<open>EventLoop\<close>: the browser running the due timers at one instant, as a
    \<open>partial_function (option)\<close> \<open>drain\<close> (its order from the HTML timer
    algorithm), proved to return from every reachable state by a weight on the pending
    timers that each fired timer decreases; and the invariant that the error shown is
    one of the two errors of the controller.
  \<^item> \<open>Fetch\<close>: \<open>fetchIssues\<close> itself: the request it builds (\<open>issues_request\<close>: URL
    and \<open>Accept\<close> header), its two awaits (\<open>fetchIssues_io\<close>, over \<open>fetch\<close> and the
    JSON parser as parameters, either of which may reject) and the await in
    \<open>onSearch\<close> (\<open>await_fetchIssues\<close>) that turns its result into the outcome the
    settle event of \<open>sys_step\<close> carries. Lemmas: the query is recoverable from the
    request; the outcomes of a server that answers each query's URL are the ones the
    settle rule allows; both rejections end in the \<open>catch\<close> with the generic error.
  \<^item> \<open>Shown\<close>: the invariant \<open>items_served\<close> of every reachable state (the items
    are empty or the formatted server answer to some query), proved by rule induction
    together with \<open>Page.cache_sound\<close>; from it, every list the page shows comes from
    the server, rendered by \<open>Item\<close>.

  The root theory states what spans the components: on a fresh page, the first
  keystroke's request and the server's answer make the page show the formatted
  results (a run of \<open>sys_step\<close> through the throttle, the controller, the API
  helpers, the reducer and the rendering); and, across the keyboard layer, the
  controller and the reducer, Enter on a highlighted option commits it.

  \<^bold>\<open>Bounds.\<close> Times are unbounded integers (ms); the delay passed to
  \<open>setTimeout\<close> is taken through ToInt32 at 32 bits and clamped at 0, so a delay is
  exact in \<open>[0, 2^31)\<close> and wraps beyond: after a 403 the dismissal is due at the
  reset time while \<open>timeUntilReset\<close> is in that range, and at once when it is in
  \<open>[2^31, 2^32)\<close>. The
  throttle wait is \<open>THROTTLE_WAIT = 2000\<close>. No loop of the program is unbounded:
  every handler is a finite composition, so no fuel is needed; non-termination of
  the page is the infinite run of \<open>sys_step\<close>, not a divergent definition. The one
  loop that could run on is the event loop draining due timers, since a callback may set
  a timer; it is \<open>drain\<close>, with the proof that it returns.

  \<^bold>\<open>Not modelled.\<close> Styles, CSS class names beyond the flags they carry, the
  icon's SVG and React's \<open>key\<close> reconciliation; the \<open>axe\<close> accessibility checker
  that \<open>index.jsx\<close> starts outside production; the HTTP transport and the
  JSON parser themselves (parameters of \<open>Fetch\<close>; in the page, the server is a
  parameter \<open>srv\<close> and a rejection is an outcome); the \<open>PropTypes\<close> declarations of
  \<open>Item.jsx\<close> and \<open>Autocomplete.jsx\<close>, which only warn in development and whose
  shapes are the model's record types; JavaScript doubles beyond integers (fractions, \<open>-0\<close>, magnitudes
  beyond \<open>2^53\<close>), whitespace outside ASCII in \<open>parseInt\<close>, and what the URL
  parser of \<open>fetch\<close> does with the query text, which \<open>fetchIssues\<close> pastes into the
  URL unencoded.
\<close>

subsection \<open>Properties across the components\<close>

text \<open>C7: on a fresh page, typing a non-empty query sends its request at once, and the server's 200 answer with items makes the page show the query in the input, no alert, and every item of the answer as an option, none selected; the run is a run of the page.\<close>

theorem typing_shows_results:
  assumes "t \<noteq> []" and "formatIssues (srv t) = Inr its" and "its \<noteq> []"
  shows "let s1 = render (onChangeText t (sys_init 0));
             s2 = render (onSearch_settle t (Resolved \<lparr>status = 200, headers = Map.empty\<rparr> (srv t))
                    (s1\<lparr>inflight := []\<rparr>))
         in reachable srv s2 \<and> inflight s1 = [(0, t)] \<and> input_value (page_view s2) = t
            \<and> alert (page_view s2) = None
            \<and> listbox (page_view s2) = Some (map (\<lambda>it. Item_view it False) its)"
proof -
  let ?s1 = "render (onChangeText t (sys_init 0))"
  let ?s2 = "render (onSearch_settle t (Resolved \<lparr>status = 200, headers = Map.empty\<rparr> (srv t))
                    (?s1\<lparr>inflight := []\<rparr>))"
  have s1: "?s1 = page t 0 [(1, 2000, ThrottleExpired 0)] 2
     \<lparr>lastArgs = None, lastCallTime = Some 0, lastInvokeTime = 0, timerId = Some 1\<rparr> [(0, t)]"
    using assms(1) by (rule type_fresh_page)
  have "reachable srv ?s2"
    using assms(1) by (rule fresh_run_reachable)
  moreover have "listbox (page_view ?s2) = Some (map (\<lambda>it. Item_view it False) its)"
    using assms by (simp add: s1 listbox_page_view list_visible_def hasItems_def option_highlighted_def
        onSearch_settle_def handleRateLimit_def dispatch_def Let_def map_enumerate_snd)
  moreover have "input_value (page_view ?s2) = t \<and> alert (page_view ?s2) = None"
    using assms by (simp add: s1 input_value_page_view alert_page_view
        onSearch_settle_def handleRateLimit_def dispatch_def Let_def initialState_def)
  ultimately show ?thesis by (simp add: s1 Let_def)
qed

text \<open>C29: Enter on a highlighted option commits it: the text becomes its title, the items are cleared, the state is pristine again and the highlight is reset.\<close>

theorem commit_highlighted:
  assumes "mounted s" and "0 \<le> highlightedIndex s" and "highlightedIndex s < int (length (items (st s)))"
  shows "key_down ENTER s = s\<lparr>highlightedIndex := - 1,
     st := (st s)\<lparr>search_text := title (items (st s) ! nat (highlightedIndex s)), items := [], isPristine := True\<rparr>\<rparr>"
  using assms by (simp add: key_down_def onSelect_def onKeyDown_def ENTER_def DOWN_ARROW_def UP_ARROW_def dispatch_def)

theorem commit_highlighted_witness:
  "let s = (sys_init 0)\<lparr>highlightedIndex := 1, st := initialState\<lparr>items :=
            [\<lparr>item_id = 1, title = ''A'', isOpen = True, labels = []\<rparr>,
             \<lparr>item_id = 2, title = ''B'', isOpen = True, labels = []\<rparr>,
             \<lparr>item_id = 3, title = ''C'', isOpen = False, labels = []\<rparr>]\<rparr>\<rparr>;
       s' = key_down ENTER s
   in search_text (st s') = ''B'' \<and> items (st s') = [] \<and> isPristine (st s') \<and> highlightedIndex s' = - 1"
proof -
  let ?s = "(sys_init 0)\<lparr>highlightedIndex := 1, st := initialState\<lparr>items :=
            [\<lparr>item_id = 1, title = ''A'', isOpen = True, labels = []\<rparr>,
             \<lparr>item_id = 2, title = ''B'', isOpen = True, labels = []\<rparr>,
             \<lparr>item_id = 3, title = ''C'', isOpen = False, labels = []\<rparr>]\<rparr>\<rparr>"
  have "key_down ENTER ?s = ?s\<lparr>highlightedIndex := - 1,
     st := (st ?s)\<lparr>search_text := title (items (st ?s) ! nat (highlightedIndex ?s)), items := [], isPristine := True\<rparr>\<rparr>"
    by (rule commit_highlighted) (simp_all add: sys_init_def)
  then show ?thesis by (simp add: Let_def)
qed


theorem typing_shows_results_witness:
  "let srv = (\<lambda>_. \<lparr>raw_items = Some [raw_bug]\<rparr>);
       s1 = render (onChangeText ''bu'' (sys_init 0));
       s2 = render (onSearch_settle ''bu'' (Resolved \<lparr>status = 200, headers = Map.empty\<rparr> (srv ''bu''))
              (s1\<lparr>inflight := []\<rparr>))
   in reachable srv s2 \<and> listbox (page_view s2) = Some [Item_view item_bug False]"
  using typing_shows_results [of "''bu''" "\<lambda>_. \<lparr>raw_items = Some [raw_bug]\<rparr>" "[item_bug]"]
  by (simp add: formatIssues_bug Let_def)

end
